theory Spec2Isabelle
  imports Complex_Main
begin

section \<open>Size budgets\<close>

text \<open>
  The constants of the page component. Sizes are byte counts and page numbers are
  page indexes: non-negative integers far below \<open>2^53\<close>, so the doubles of the source
  are modelled as \<open>nat\<close>. The two subtractions of the source (\<open>end - cursor\<close> and
  \<open>endPageExclusive - startPage\<close>) are compared with 1 or used as an array length,
  where a negative value behaves as 0 does; truncating subtraction agrees there.
\<close>

definition MAX_ERROR_BODY_LENGTH :: nat where
  "MAX_ERROR_BODY_LENGTH = 500"

definition OCR_IMAGE_LIMIT_BYTES :: nat where
  "OCR_IMAGE_LIMIT_BYTES = 10 * 1024 * 1024"

definition OCR_PDF_LIMIT_BYTES :: nat where
  "OCR_PDF_LIMIT_BYTES = 50 * 1024 * 1024"

definition OCR_PDF_PAGE_LIMIT :: nat where
  "OCR_PDF_PAGE_LIMIT = 100"

definition PDF_CHUNK_TARGET_BYTES :: nat where
  "PDF_CHUNK_TARGET_BYTES = 45 * 1024 * 1024"

definition PDF_CHUNK_MAX_PAGES :: nat where
  "PDF_CHUNK_MAX_PAGES = 40"

section \<open>Files, exceptions and the platform\<close>

text \<open>
  A \<open>File\<close>: its name, its media type, its size in bytes and its content. The
  \<open>lastModified\<close> stamp is a clock reading and is left out.
\<close>

record 'b File =
  name :: string
  ftype :: string
  fsize :: nat
  body :: 'b

text \<open>
  A thrown value. \<open>Error\<close> is an error the page or a library constructs with the
  given message; \<open>TypeError\<close> is raised by the language itself (reading a property of
  \<open>null\<close> or \<open>undefined\<close>), with the message of the V8 engine.
\<close>

datatype exn = Error string | TypeError string

fun message :: "exn \<Rightarrow> string" where
  "message (Error m) = m"
| "message (TypeError m) = m"

text \<open>A value produced by \<open>JSON.parse\<close>. A number is the value of its double.\<close>

datatype json =
    JNull
  | JBool bool
  | JNumber rat
  | JString string
  | JArray "json list"
  | JObject "(string \<times> json) list"

text \<open>
  A settled \<open>fetch\<close>: the status code, the \<open>content-type\<close> header when present, and
  the body text.
\<close>

record response =
  status :: nat
  contentType :: "string option"
  bodyText :: string

text \<open>
  Everything the page calls and does not define: the PDF library, the image decoder
  and canvas of the browser, the network and the JSON reader. A PDF document is the
  list of its pages (\<open>'p\<close>); \<open>'b\<close> is a byte buffer, \<open>'i\<close> a decoded image and
  \<open>'c\<close> a canvas that can be encoded.
  \<^item> \<open>byteLength\<close>: the number of bytes of a buffer;
  \<^item> \<open>load\<close>: \<open>file.arrayBuffer()\<close> then \<open>PDFDocument.load\<close>: the pages, or what was thrown;
  \<^item> \<open>save\<close>: a fresh document with the given pages added, serialised;
  \<^item> \<open>decode\<close>: the image element's load (\<open>None\<close> when \<open>onerror\<close> fires);
  \<^item> \<open>render\<close>: a canvas of the image's natural size times the scale, at least one
    pixel each way, with the image drawn on it (\<open>None\<close> when \<open>getContext\<close> gives
    \<open>null\<close>); the rounded product is floating-point arithmetic and stays inside;
  \<^item> \<open>toBlob\<close>: the canvas encoded as JPEG at a quality (\<open>None\<close> for a \<open>null\<close> blob);
  \<^item> \<open>fetch\<close>: the POST of a file to \<open>/api/ocr\<close>, as the \<open>n\<close>-th request of a run
    (from 0), read to its end, or the rejection;
  \<^item> \<open>parse\<close>: \<open>JSON.parse\<close> (\<open>None\<close> when it throws);
  \<^item> \<open>stringify\<close>: the language's string conversion of a value that is no string.
\<close>

record ('b, 'p, 'i, 'c) env =
  byteLength :: "'b \<Rightarrow> nat"
  load :: "'b \<Rightarrow> exn + 'p list"
  save :: "'p list \<Rightarrow> exn + 'b"
  decode :: "'b File \<Rightarrow> 'i option"
  render :: "'i \<Rightarrow> rat \<Rightarrow> 'c option"
  toBlob :: "'c \<Rightarrow> rat \<Rightarrow> 'b option"
  fetch :: "nat \<Rightarrow> 'b File \<Rightarrow> exn + response"
  parse :: "string \<Rightarrow> json option"
  stringify :: "json \<Rightarrow> string"

section \<open>Strings\<close>

text \<open>
  Strings are byte strings here; the source counts UTF-16 code units, which is the
  same count on ASCII text.
\<close>

definition startsWith :: "string \<Rightarrow> string \<Rightarrow> bool" where
  "startsWith s p = (take (length p) s = p)"

fun includesStr :: "string \<Rightarrow> string \<Rightarrow> bool" where
  "includesStr [] p = (p = [])"
| "includesStr (c # cs) p = (startsWith (c # cs) p \<or> includesStr cs p)"

text \<open>The decimal numeral of a number, as a template literal prints an integer.\<close>

function show_nat :: "nat \<Rightarrow> string" where
  "show_nat n =
     (if n < 10 then [''0123456789'' ! n]
      else show_nat (n div 10) @ [''0123456789'' ! (n mod 10)])"
  by pat_completeness auto
termination
  by (relation "measure id") auto

declare show_nat.simps [simp del]

text \<open>
  \<open>name.replace(/\.[^/.]+$/, "")\<close>: the pattern matches a dot followed by one or
  more characters that are neither a slash nor a dot, up to the end of the name; so
  it can only match at the last dot, when something follows it and no slash does.
\<close>

definition stripExtension :: "string \<Rightarrow> string" where
  "stripExtension nm =
     (let ext = takeWhile (\<lambda>c. c \<noteq> CHR ''.'') (rev nm)
      in if length ext < length nm \<and> ext \<noteq> [] \<and> CHR ''/'' \<notin> set ext
         then take (length nm - length ext - 1) nm
         else nm)"

definition replaceExtension :: "string \<Rightarrow> string \<Rightarrow> string" where
  "replaceExtension nm nextExt = stripExtension nm @ ''.'' @ nextExt"

text \<open>\<open>xs.join(sep)\<close> on strings.\<close>

fun join :: "string \<Rightarrow> string list \<Rightarrow> string" where
  "join sep [] = []"
| "join sep [x] = x"
| "join sep (x # y # ys) = x @ sep @ join sep (y # ys)"

section \<open>The image compressor\<close>

definition loadImageElement :: "('b, 'p, 'i, 'c) env \<Rightarrow> 'b File \<Rightarrow> exn + 'i" where
  "loadImageElement e f =
     (case decode e f of
        None \<Rightarrow> Inl (Error ''Failed to decode image'')
      | Some img \<Rightarrow> Inr img)"

definition canvasToBlob :: "('b, 'p, 'i, 'c) env \<Rightarrow> 'c \<Rightarrow> rat \<Rightarrow> exn + 'b" where
  "canvasToBlob e canvas quality =
     (case toBlob e canvas quality of
        None \<Rightarrow> Inl (Error ''Could not encode compressed image'')
      | Some blob \<Rightarrow> Inr blob)"

text \<open>
  The two arrays of \<open>compressImageForOcr\<close>. A scale or a quality is the rational that
  its literal denotes; the code only hands them to the canvas.
\<close>

definition scales :: "rat list" where
  "scales = [1, 9 / 10, 8 / 10, 7 / 10, 6 / 10]"

definition qualities :: "rat list" where
  "qualities = [9 / 10, 8 / 10, 7 / 10, 6 / 10, 5 / 10]"

text \<open>The file made of an encoded blob: the JPEG named after the input.\<close>

definition jpegFile :: "('b, 'p, 'i, 'c) env \<Rightarrow> 'b File \<Rightarrow> 'b \<Rightarrow> 'b File" where
  "jpegFile e f blob =
     \<lparr>name = replaceExtension (name f) ''jpg'', ftype = ''image/jpeg'',
      fsize = byteLength e blob, body = blob\<rparr>"

text \<open>
  The inner loop over the qualities, on one canvas: \<open>Inr (Some f)\<close> is the
  \<open>return\<close> out of both loops, \<open>Inr None\<close> the end of the inner loop.
\<close>

fun tryQualities ::
  "('b, 'p, 'i, 'c) env \<Rightarrow> 'b File \<Rightarrow> 'c \<Rightarrow> rat list \<Rightarrow> exn + 'b File option" where
  "tryQualities e f canvas [] = Inr None"
| "tryQualities e f canvas (quality # rest) =
     (case canvasToBlob e canvas quality of
        Inl x \<Rightarrow> Inl x
      | Inr blob \<Rightarrow>
          if byteLength e blob \<le> OCR_IMAGE_LIMIT_BYTES then Inr (Some (jpegFile e f blob))
          else tryQualities e f canvas rest)"

text \<open>The outer loop over the scales, and the \<open>throw\<close> after it.\<close>

fun tryScales ::
  "('b, 'p, 'i, 'c) env \<Rightarrow> 'b File \<Rightarrow> 'i \<Rightarrow> rat list \<Rightarrow> exn + 'b File" where
  "tryScales e f img [] =
     Inl (Error ''Image is still too large after compression. Please resize it manually and try again.'')"
| "tryScales e f img (scale # rest) =
     (case render e img scale of
        None \<Rightarrow> Inl (Error ''Could not initialize canvas for image compression'')
      | Some canvas \<Rightarrow>
          (case tryQualities e f canvas qualities of
             Inl x \<Rightarrow> Inl x
           | Inr (Some out) \<Rightarrow> Inr out
           | Inr None \<Rightarrow> tryScales e f img rest))"

definition compressImageForOcr :: "('b, 'p, 'i, 'c) env \<Rightarrow> 'b File \<Rightarrow> exn + 'b File" where
  "compressImageForOcr e f =
     (if fsize f \<le> OCR_IMAGE_LIMIT_BYTES then Inr f
      else
        (case loadImageElement e f of
           Inl x \<Rightarrow> Inl x
         | Inr img \<Rightarrow> tryScales e f img scales))"

text \<open>
  The blob of one combination: the image rendered at the scale, encoded at the
  quality, as the two loops of \<open>compressImageForOcr\<close> make it.
\<close>

definition encoded :: "('b, 'p, 'i, 'c) env \<Rightarrow> 'i \<Rightarrow> rat \<Rightarrow> rat \<Rightarrow> 'b option" where
  "encoded e img scale quality =
     (case render e img scale of
        None \<Rightarrow> None
      | Some canvas \<Rightarrow> toBlob e canvas quality)"

section \<open>The PDF splitter\<close>

text \<open>
  \<open>copyPages\<close> of the PDF library reads the source's pages at the given indexes; an
  index outside the document reads \<open>undefined\<close>, and copying that throws.
\<close>

definition copyPages :: "'p list \<Rightarrow> nat list \<Rightarrow> exn + 'p list" where
  "copyPages source pageIndexes =
     (if list_all (\<lambda>i. i < length source) pageIndexes
      then Inr (map (\<lambda>i. source ! i) pageIndexes)
      else Inl (TypeError ''Cannot read properties of undefined (reading 'node')''))"

definition createPdfChunk ::
  "('b, 'p, 'i, 'c) env \<Rightarrow> 'p list \<Rightarrow> nat \<Rightarrow> nat \<Rightarrow> string \<Rightarrow> nat \<Rightarrow> exn + 'b File" where
  "createPdfChunk e source startPage endPageExclusive fileName partNumber =
     (let pageIndexes = map (\<lambda>idx. startPage + idx) [0 ..< endPageExclusive - startPage]
      in case copyPages source pageIndexes of
           Inl x \<Rightarrow> Inl x
         | Inr pages \<Rightarrow>
             (case save e pages of
                Inl x \<Rightarrow> Inl x
              | Inr chunkBytes \<Rightarrow>
                  Inr \<lparr>name = replaceExtension fileName (''part-'' @ show_nat partNumber @ ''.pdf''),
                       ftype = ''application/pdf'',
                       fsize = byteLength e chunkBytes,
                       body = chunkBytes\<rparr>))"

text \<open>
  The inner loop of \<open>splitPdfForOcr\<close>, from the candidate chunk of the pages
  \<open>[cursor, endPage)\<close>: it gives the end page and the chunk it stops at. The loops are
  defined without a termination argument; \<open>None\<close> stands for a loop that never ends.
\<close>

partial_function (option) shrinkChunk ::
  "('b, 'p, 'i, 'c) env \<Rightarrow> 'p list \<Rightarrow> string \<Rightarrow> nat \<Rightarrow> nat \<Rightarrow> nat \<Rightarrow> 'b File
     \<Rightarrow> (exn + nat \<times> 'b File) option" where
  "shrinkChunk e source fileName partNumber cursor endPage chunk =
     (if fsize chunk > PDF_CHUNK_TARGET_BYTES \<and> endPage - cursor > 1 then
        (case createPdfChunk e source cursor (endPage - 1) fileName partNumber of
           Inl x \<Rightarrow> Some (Inl x)
         | Inr chunk' \<Rightarrow> shrinkChunk e source fileName partNumber cursor (endPage - 1) chunk')
      else Some (Inr (endPage, chunk)))"

text \<open>
  The outer loop. Each accepted chunk is recorded with the page range it was made
  from: \<open>(cursor, end, chunk)\<close>.
\<close>

partial_function (option) splitLoop ::
  "('b, 'p, 'i, 'c) env \<Rightarrow> 'p list \<Rightarrow> string \<Rightarrow> nat \<Rightarrow> nat \<Rightarrow> (nat \<times> nat \<times> 'b File) list
     \<Rightarrow> (exn + (nat \<times> nat \<times> 'b File) list) option" where
  "splitLoop e source fileName cursor partNumber chunks =
     (if cursor < length source then
        (case createPdfChunk e source cursor
                (min (cursor + PDF_CHUNK_MAX_PAGES) (length source)) fileName partNumber of
           Inl x \<Rightarrow> Some (Inl x)
         | Inr chunk0 \<Rightarrow>
             (case shrinkChunk e source fileName partNumber cursor
                     (min (cursor + PDF_CHUNK_MAX_PAGES) (length source)) chunk0 of
                None \<Rightarrow> None
              | Some (Inl x) \<Rightarrow> Some (Inl x)
              | Some (Inr (endPage, chunk)) \<Rightarrow>
                  if fsize chunk > OCR_PDF_LIMIT_BYTES then
                    Some (Inl (Error ''A single PDF page exceeds the OCR API file size limit. Please reduce page resolution and try again.''))
                  else splitLoop e source fileName endPage (partNumber + 1)
                         (chunks @ [(cursor, endPage, chunk)])))
      else Some (Inr chunks))"

text \<open>The split with the page range of every chunk.\<close>

definition splitPdfRanges ::
  "('b, 'p, 'i, 'c) env \<Rightarrow> 'b File \<Rightarrow> (exn + (nat \<times> nat \<times> 'b File) list \<times> nat) option" where
  "splitPdfRanges e f =
     (case load e (body f) of
        Inl x \<Rightarrow> Some (Inl x)
      | Inr source \<Rightarrow>
          (case splitLoop e source (name f) 0 1 [] of
             None \<Rightarrow> None
           | Some (Inl x) \<Rightarrow> Some (Inl x)
           | Some (Inr chunks) \<Rightarrow> Some (Inr (chunks, length source))))"

text \<open>\<open>splitPdfForOcr\<close> returns the chunk files and the page count.\<close>

definition splitPdfForOcr ::
  "('b, 'p, 'i, 'c) env \<Rightarrow> 'b File \<Rightarrow> (exn + 'b File list \<times> nat) option" where
  "splitPdfForOcr e f =
     (case splitPdfRanges e f of
        None \<Rightarrow> None
      | Some (Inl x) \<Rightarrow> Some (Inl x)
      | Some (Inr (chunks, pageCount)) \<Rightarrow> Some (Inr (map (\<lambda>(s, t, c). c) chunks, pageCount)))"

text \<open>
  The chunks the outer loop accepts one after the other when it starts at \<open>cursor\<close>
  with part number \<open>partNumber\<close>: each is the chunk the inner loop stops at, it is
  within the hard limit, and the next one starts at its end page.
\<close>

fun accepted ::
  "('b, 'p, 'i, 'c) env \<Rightarrow> 'p list \<Rightarrow> string \<Rightarrow> nat \<Rightarrow> nat
     \<Rightarrow> (nat \<times> nat \<times> 'b File) list \<Rightarrow> bool" where
  "accepted e source fileName cursor partNumber [] = True"
| "accepted e source fileName cursor partNumber ((s, t, c) # rest) =
     (s = cursor \<and> cursor < length source \<and>
      (case createPdfChunk e source cursor
              (min (cursor + PDF_CHUNK_MAX_PAGES) (length source)) fileName partNumber of
         Inl x \<Rightarrow> False
       | Inr chunk0 \<Rightarrow>
           shrinkChunk e source fileName partNumber cursor
             (min (cursor + PDF_CHUNK_MAX_PAGES) (length source)) chunk0 = Some (Inr (t, c))) \<and>
      fsize c \<le> OCR_PDF_LIMIT_BYTES \<and>
      accepted e source fileName t (partNumber + 1) rest)"

text \<open>The page cursor after a list of accepted chunks.\<close>

fun cursorAfter :: "nat \<Rightarrow> (nat \<times> nat \<times> 'a) list \<Rightarrow> nat" where
  "cursorAfter cursor [] = cursor"
| "cursorAfter cursor ((s, t, c) # rest) = cursorAfter t rest"

section \<open>The chunk submitter\<close>

text \<open>\<open>response.ok\<close>: the status is in the range 200 to 299.\<close>

definition ok :: "response \<Rightarrow> bool" where
  "ok r = (200 \<le> status r \<and> status r \<le> 299)"

text \<open>What the language takes for true in \<open>v || d\<close>.\<close>

fun truthy :: "json \<Rightarrow> bool" where
  "truthy JNull = False"
| "truthy (JBool b) = b"
| "truthy (JNumber r) = (r \<noteq> 0)"
| "truthy (JString s) = (s \<noteq> [])"
| "truthy (JArray vs) = True"
| "truthy (JObject kvs) = True"

text \<open>
  Reading the property \<open>text\<close> or \<open>error\<close> of the parsed body: \<open>None\<close> is
  \<open>undefined\<close>. An object has the properties the reader gave it (each key once);
  no other value has either property, and reading one of \<open>null\<close> throws.
\<close>

fun getProp :: "json \<Rightarrow> string \<Rightarrow> exn + json option" where
  "getProp JNull k =
     Inl (TypeError (''Cannot read properties of null (reading '' @ [CHR 0x27] @ k @ [CHR 0x27] @ '')''))"
| "getProp (JObject kvs) k = Inr (map_of kvs k)"
| "getProp v k = Inr None"

text \<open>\<open>v || d\<close> for a string \<open>d\<close>.\<close>

definition orElse :: "json option \<Rightarrow> string \<Rightarrow> json" where
  "orElse v d =
     (case v of
        None \<Rightarrow> JString d
      | Some j \<Rightarrow> if truthy j then j else JString d)"

text \<open>\<open>String(v)\<close>, and \<open>v\<close> as the left operand of a string concatenation.\<close>

definition toStr :: "('b, 'p, 'i, 'c) env \<Rightarrow> json \<Rightarrow> string" where
  "toStr e v = (case v of JString s \<Rightarrow> s | _ \<Rightarrow> stringify e v)"

text \<open>
  The horizontal ellipsis U+2026, in UTF-8. The body is measured and cut in bytes
  below; the source measures and cuts it in UTF-16 code units. The two agree on an
  ASCII body, and only the text of the message for a body that is no JSON depends on
  it.
\<close>

definition ellipsis :: string where
  "ellipsis = [CHR 0xE2, CHR 0x80, CHR 0xA6]"

definition submitFileToOcr :: "('b, 'p, 'i, 'c) env \<Rightarrow> nat \<Rightarrow> 'b File \<Rightarrow> exn + string" where
  "submitFileToOcr e n sourceFile =
     (case fetch e n sourceFile of
        Inl x \<Rightarrow> Inl x
      | Inr response \<Rightarrow>
          (let contentTypeHeader = (case contentType response of None \<Rightarrow> [] | Some h \<Rightarrow> h);
               isJson = includesStr contentTypeHeader ''application/json'';
               nonJsonError =
                 (if length (bodyText response) > MAX_ERROR_BODY_LENGTH
                  then ''Non-JSON response: '' @ take MAX_ERROR_BODY_LENGTH (bodyText response) @ ellipsis
                  else ''Non-JSON response: '' @ bodyText response);
               data =
                 (if isJson then
                    (case parse e (bodyText response) of
                       Some v \<Rightarrow> v
                     | None \<Rightarrow> JObject [(''error'', JString nonJsonError)])
                  else JObject [(''error'', JString nonJsonError)])
           in if \<not> ok response then
                (case getProp data ''error'' of
                   Inl x \<Rightarrow> Inl x
                 | Inr v \<Rightarrow>
                     Inl (Error (toStr e (orElse v ''OCR processing failed'')
                                 @ '' (HTTP '' @ show_nat (status response) @ '')'')))
              else
                (case getProp data ''text'' of
                   Inl x \<Rightarrow> Inl x
                 | Inr v \<Rightarrow> Inr (toStr e (orElse v [])))))"

section \<open>The orchestrator\<close>

text \<open>
  What a run does to the page, in order: the state setters it calls, the requests it
  sends and the pauses it takes. \<open>SetFile\<close> is called by the drop handler only.
\<close>

datatype 'b action =
    SetFile "'b File option"
  | SetText string
  | SetIsProcessing bool
  | SetStatusMessage "string option"
  | SetError "string option"
  | Fetch "'b File"
  | Sleep nat

text \<open>The state of the page that the pipeline reads and writes.\<close>

record 'b ui =
  st_file :: "'b File option"
  st_text :: string
  st_isProcessing :: bool
  st_statusMessage :: "string option"
  st_error :: "string option"

fun perform :: "'b ui \<Rightarrow> 'b action \<Rightarrow> 'b ui" where
  "perform s (SetFile f) = s\<lparr>st_file := f\<rparr>"
| "perform s (SetText t) = s\<lparr>st_text := t\<rparr>"
| "perform s (SetIsProcessing b) = s\<lparr>st_isProcessing := b\<rparr>"
| "perform s (SetStatusMessage m) = s\<lparr>st_statusMessage := m\<rparr>"
| "perform s (SetError m) = s\<lparr>st_error := m\<rparr>"
| "perform s (Fetch f) = s"
| "perform s (Sleep ms) = s"

definition run :: "'b ui \<Rightarrow> 'b action list \<Rightarrow> 'b ui" where
  "run s acts = foldl perform s acts"

text \<open>The files sent to the OCR boundary, in order.\<close>

fun fetched :: "'b action list \<Rightarrow> 'b File list" where
  "fetched [] = []"
| "fetched (Fetch f # acts) = f # fetched acts"
| "fetched (a # acts) = fetched acts"

text \<open>The texts committed, in order.\<close>

fun committed :: "'b action list \<Rightarrow> string list" where
  "committed [] = []"
| "committed (SetText t # acts) = t # committed acts"
| "committed (a # acts) = committed acts"

text \<open>
  The loop over the chunks, from index \<open>i\<close> with the chunks still to submit: what it
  does, and the fragments or the exception it ends with. \<open>n\<close> is
  \<open>chunks.length\<close>, at least 1 inside the loop.
\<close>

fun submitChunks ::
  "('b, 'p, 'i, 'c) env \<Rightarrow> nat \<Rightarrow> nat \<Rightarrow> 'b File list \<Rightarrow> string list
     \<Rightarrow> 'b action list \<times> (exn + string list)" where
  "submitChunks e n i [] chunkTexts = ([], Inr chunkTexts)"
| "submitChunks e n i (chunk # rest) chunkTexts =
     (case submitFileToOcr e i chunk of
        Inl x \<Rightarrow>
          ([SetStatusMessage (Some (''Processing PDF chunk '' @ show_nat (i + 1) @ ''/''
                                     @ show_nat n @ ''...'')),
            Fetch chunk], Inl x)
      | Inr chunkText \<Rightarrow>
          (case submitChunks e n (i + 1) rest (chunkTexts @ [chunkText]) of
             (acts, r) \<Rightarrow>
               ([SetStatusMessage (Some (''Processing PDF chunk '' @ show_nat (i + 1) @ ''/''
                                          @ show_nat n @ ''...'')),
                 Fetch chunk]
                @ (if i < n - 1 then [Sleep 250] else [])
                @ acts, r)))"

text \<open>The blank line between two fragments.\<close>

definition separator :: string where
  "separator = [CHR 0x0A, CHR 0x0A]"

text \<open>\<open>chunkTexts.filter(Boolean).join("\n\n")\<close>: a string is false when it is empty.\<close>

definition mergeTexts :: "string list \<Rightarrow> string" where
  "mergeTexts chunkTexts = join separator (filter (\<lambda>t. t \<noteq> []) chunkTexts)"

text \<open>
  The part of the PDF branch after the fast path: split, submit every chunk, merge.
  The result is what the block did and how it ended: \<open>Inr ()\<close> is the \<open>return\<close>,
  \<open>Inl x\<close> the exception that reaches the \<open>catch\<close>.
\<close>

definition splitAndSubmit ::
  "('b, 'p, 'i, 'c) env \<Rightarrow> 'b File \<Rightarrow> ('b action list \<times> (exn + unit)) option" where
  "splitAndSubmit e fileToProcess =
     (case splitPdfForOcr e fileToProcess of
        None \<Rightarrow> None
      | Some (Inl x) \<Rightarrow>
          Some ([SetStatusMessage (Some ''Splitting PDF into OCR-safe chunks...'')], Inl x)
      | Some (Inr (chunks, pageCount)) \<Rightarrow>
          (case submitChunks e (length chunks) 0 chunks [] of
             (acts, r) \<Rightarrow>
               Some ([SetStatusMessage (Some ''Splitting PDF into OCR-safe chunks...'')]
                     @ (if pageCount > OCR_PDF_PAGE_LIMIT
                        then [SetStatusMessage (Some (''PDF has '' @ show_nat pageCount
                                @ '' pages. Processing '' @ show_nat (length chunks) @ '' chunks...''))]
                        else [])
                     @ acts
                     @ (case r of Inl x \<Rightarrow> [] | Inr chunkTexts \<Rightarrow> [SetText (mergeTexts chunkTexts)]),
                     (case r of Inl x \<Rightarrow> Inl x | Inr chunkTexts \<Rightarrow> Inr ()))))"

text \<open>A file sent as it is, under a status line.\<close>

definition submitWhole ::
  "('b, 'p, 'i, 'c) env \<Rightarrow> string \<Rightarrow> 'b File \<Rightarrow> 'b action list \<times> (exn + unit)" where
  "submitWhole e statusLine f =
     (case submitFileToOcr e 0 f of
        Inl x \<Rightarrow> ([SetStatusMessage (Some statusLine), Fetch f], Inl x)
      | Inr t \<Rightarrow> ([SetStatusMessage (Some statusLine), Fetch f, SetText t], Inr ()))"

text \<open>The body of the \<open>try\<close> block.\<close>

definition tryBlock ::
  "('b, 'p, 'i, 'c) env \<Rightarrow> 'b File \<Rightarrow> ('b action list \<times> (exn + unit)) option" where
  "tryBlock e fileToProcess =
     (if startsWith (ftype fileToProcess) ''image/'' then
        (case compressImageForOcr e fileToProcess of
           Inl x \<Rightarrow> Some ([], Inl x)
         | Inr preparedImage \<Rightarrow>
             Some (submitWhole e
                     (if fsize preparedImage = fsize fileToProcess then ''Processing image...''
                      else ''Image compressed. Running OCR...'')
                     preparedImage))
      else if ftype fileToProcess = ''application/pdf'' then
        (if \<not> fsize fileToProcess > OCR_PDF_LIMIT_BYTES then
           (case load e (body fileToProcess) of
              Inl x \<Rightarrow> Some ([], Inl x)
            | Inr pdfDoc \<Rightarrow>
                if length pdfDoc \<le> OCR_PDF_PAGE_LIMIT
                then Some (submitWhole e ''Processing PDF...'' fileToProcess)
                else splitAndSubmit e fileToProcess)
         else splitAndSubmit e fileToProcess)
      else Some ([], Inl (Error ''Unsupported file type. Please upload an image or PDF.'')))"

text \<open>
  \<open>processOCR\<close>: nothing for no file; otherwise the three setters, the \<open>try\<close> block,
  the \<open>catch\<close> (every value thrown here is an \<open>Error\<close> object, so its message is
  shown) and the \<open>finally\<close>.
\<close>

definition processOCR ::
  "('b, 'p, 'i, 'c) env \<Rightarrow> 'b File option \<Rightarrow> 'b action list option" where
  "processOCR e fileToProcess =
     (case fileToProcess of
        None \<Rightarrow> Some []
      | Some f \<Rightarrow>
          (case tryBlock e f of
             None \<Rightarrow> None
           | Some (acts, r) \<Rightarrow>
               Some ([SetIsProcessing True, SetStatusMessage (Some ''Preparing file...''),
                      SetError None]
                     @ acts
                     @ (case r of Inl x \<Rightarrow> [SetError (Some (message x))] | Inr u \<Rightarrow> [])
                     @ [SetIsProcessing False, SetStatusMessage None])))"

text \<open>The drop handler, without the preview of an image.\<close>

definition onDrop :: "'b File \<Rightarrow> 'b action list" where
  "onDrop selectedFile = [SetFile (Some selectedFile), SetError None, SetText []]"

text \<open>
  The Clear button, shown while a file is selected, without the preview. The effect
  that follows it calls \<open>processOCR\<close> with no file, which does nothing.
\<close>

definition clearAll :: "'b action list" where
  "clearAll = [SetFile None, SetText [], SetStatusMessage None, SetError None]"

text \<open>The values given to \<open>setError\<close>, in order.\<close>

fun reported :: "'b action list \<Rightarrow> string option list" where
  "reported [] = []"
| "reported (SetError m # acts) = m # reported acts"
| "reported (a # acts) = reported acts"

text \<open>The actions that leave the file, the text, the error and the busy flag alone.\<close>

fun silent :: "'b action \<Rightarrow> bool" where
  "silent (SetStatusMessage m) = True"
| "silent (Fetch f) = True"
| "silent (Sleep ms) = True"
| "silent a = False"

text \<open>
  A run is suspended while its request is under way: what it does up to and with its
  first request, and what it does once that request has settled.
\<close>

fun untilFetch :: "'b action list \<Rightarrow> 'b action list" where
  "untilFetch [] = []"
| "untilFetch (Fetch f # acts) = [Fetch f]"
| "untilFetch (a # acts) = a # untilFetch acts"

fun afterFetch :: "'b action list \<Rightarrow> 'b action list" where
  "afterFetch [] = []"
| "afterFetch (Fetch f # acts) = acts"
| "afterFetch (a # acts) = afterFetch acts"

text \<open>
  Two runs on one page. The first file is dropped and its run sends its request. The
  drop zone is away while a file is selected, so Clear is clicked; then the second
  file is dropped, and its run starts, sends its request and completes. Then the
  request of the first run settles and the first run completes.
\<close>

definition supersede :: "'b action list \<Rightarrow> 'b File \<Rightarrow> 'b action list \<Rightarrow> 'b File \<Rightarrow> 'b action list" where
  "supersede firstRun firstFile secondRun secondFile =
     onDrop firstFile @ untilFetch firstRun @
     clearAll @
     onDrop secondFile @ untilFetch secondRun @ afterFetch secondRun @
     afterFetch firstRun"

text \<open>
  An error message that refers to chunk \<open>k\<close> of \<open>n\<close>, read as weakly as can be: the
  numerals of \<open>k\<close> and of \<open>n\<close> both occur in it.
\<close>

definition mentionsChunk :: "nat \<Rightarrow> nat \<Rightarrow> string \<Rightarrow> bool" where
  "mentionsChunk k n msg = (includesStr msg (show_nat k) \<and> includesStr msg (show_nat n))"

section \<open>Concrete inputs\<close>

text \<open>
  A platform to run the pipeline on: a page is its serialised size in bytes, a buffer
  is the list of the pages (or parts) it holds, and a document serialises to the sum
  of its pages. The encoder gets under 10 MiB from scale 0.9 and quality 0.8 on. The
  boundary answers the second request of a run with an empty text and the others with
  a text that depends on the file's name. The JSON reader is given on the bodies used
  below.
\<close>

definition demo_env :: "(nat list, nat, nat, nat \<times> rat) env" where
  \<open>demo_env =
     \<lparr>byteLength = sum_list,
      load = (\<lambda>b. if b = [] then Inl (Error ''No PDF header found'') else Inr b),
      save = Inr,
      decode = (\<lambda>f. if fsize f = 0 then None else Some (fsize f)),
      render = (\<lambda>img s. Some (img, s)),
      toBlob = (\<lambda>(img, s) q.
                  Some [if s \<le> 9 / 10 \<and> q \<le> 8 / 10 then 9 * 1024 * 1024 else 12 * 1024 * 1024]),
      fetch = (\<lambda>n f. Inr \<lparr>status = 200, contentType = Some ''application/json'',
                            bodyText = (if n = 1 then ''{"text":""}''
                                        else if name f = ''receipt.png'' then ''{"text":"other"}''
                                        else ''{"text":"page"}'')\<rparr>),
      parse = map_of
                [(''null'', JNull),
                 (''{}'', JObject []),
                 (''{"text":""}'', JObject [(''text'', JString [])]),
                 (''{"text":"page"}'', JObject [(''text'', JString ''page'')]),
                 (''{"text":"other"}'', JObject [(''text'', JString ''other'')]),
                 (''{"error":"Internal server error"}'',
                    JObject [(''error'', JString ''Internal server error'')])],
      stringify = (\<lambda>v. ''[object Object]'')\<rparr>\<close>

text \<open>A PDF of three pages of 25, 25 and 10 MiB.\<close>

definition demo_pdf :: "nat list File" where
  "demo_pdf =
     \<lparr>name = ''scan.pdf'', ftype = ''application/pdf'', fsize = 60 * 1024 * 1024,
      body = [25 * 1024 * 1024, 25 * 1024 * 1024, 10 * 1024 * 1024]\<rparr>"

text \<open>The two chunks it is split into: the pages \<open>[0, 1)\<close> and \<open>[1, 3)\<close>.\<close>

definition demo_chunk1 :: "nat list File" where
  "demo_chunk1 =
     \<lparr>name = ''scan.part-1.pdf'', ftype = ''application/pdf'', fsize = 25 * 1024 * 1024,
      body = [25 * 1024 * 1024]\<rparr>"

definition demo_chunk2 :: "nat list File" where
  "demo_chunk2 =
     \<lparr>name = ''scan.part-2.pdf'', ftype = ''application/pdf'', fsize = 35 * 1024 * 1024,
      body = [25 * 1024 * 1024, 10 * 1024 * 1024]\<rparr>"

text \<open>A PDF of one page of 55 MiB.\<close>

definition big_page_pdf :: "nat list File" where
  "big_page_pdf =
     \<lparr>name = ''poster.pdf'', ftype = ''application/pdf'', fsize = 55 * 1024 * 1024,
      body = [55 * 1024 * 1024]\<rparr>"

text \<open>The candidate chunks of its pages \<open>[0, 3)\<close> and \<open>[0, 2)\<close>, both over the target.\<close>

definition demo_whole :: "nat list File" where
  "demo_whole =
     \<lparr>name = ''scan.part-1.pdf'', ftype = ''application/pdf'', fsize = 60 * 1024 * 1024,
      body = [25 * 1024 * 1024, 25 * 1024 * 1024, 10 * 1024 * 1024]\<rparr>"

definition demo_two :: "nat list File" where
  "demo_two =
     \<lparr>name = ''scan.part-1.pdf'', ftype = ''application/pdf'', fsize = 50 * 1024 * 1024,
      body = [25 * 1024 * 1024, 25 * 1024 * 1024]\<rparr>"

text \<open>A JPEG of 2 MiB and a PNG of 12 MiB.\<close>

definition small_image :: "nat list File" where
  "small_image =
     \<lparr>name = ''photo.jpeg'', ftype = ''image/jpeg'', fsize = 2 * 1024 * 1024,
      body = [2 * 1024 * 1024]\<rparr>"

definition large_image :: "nat list File" where
  "large_image =
     \<lparr>name = ''scan.v2.png'', ftype = ''image/png'', fsize = 12 * 1024 * 1024,
      body = [12 * 1024 * 1024]\<rparr>"

text \<open>The same platform with an encoder that never gets under 11 MiB.\<close>

definition stubborn_env :: "(nat list, nat, nat, nat \<times> rat) env" where
  "stubborn_env = demo_env\<lparr>toBlob := (\<lambda>canvas q. Some [11 * 1024 * 1024])\<rparr>"

text \<open>A PDF of two pages within both budgets.\<close>

definition small_pdf :: "nat list File" where
  "small_pdf =
     \<lparr>name = ''note.pdf'', ftype = ''application/pdf'', fsize = 3 * 1024 * 1024,
      body = [1024 * 1024, 2 * 1024 * 1024]\<rparr>"

text \<open>A PDF of three pages of 30 MiB, and the three chunks it is split into.\<close>

definition book_pdf :: "nat list File" where
  "book_pdf =
     \<lparr>name = ''book.pdf'', ftype = ''application/pdf'', fsize = 90 * 1024 * 1024,
      body = [30 * 1024 * 1024, 30 * 1024 * 1024, 30 * 1024 * 1024]\<rparr>"

definition book_part1 :: "nat list File" where
  "book_part1 =
     \<lparr>name = ''book.part-1.pdf'', ftype = ''application/pdf'', fsize = 30 * 1024 * 1024,
      body = [30 * 1024 * 1024]\<rparr>"

definition book_part2 :: "nat list File" where
  "book_part2 =
     \<lparr>name = ''book.part-2.pdf'', ftype = ''application/pdf'', fsize = 30 * 1024 * 1024,
      body = [30 * 1024 * 1024]\<rparr>"

definition book_part3 :: "nat list File" where
  "book_part3 =
     \<lparr>name = ''book.part-3.pdf'', ftype = ''application/pdf'', fsize = 30 * 1024 * 1024,
      body = [30 * 1024 * 1024]\<rparr>"

text \<open>
  What the run on it does when the boundary answers every request: the second
  fragment is empty.
\<close>

definition book_run :: "nat list action list" where
  "book_run =
     [SetIsProcessing True, SetStatusMessage (Some ''Preparing file...''), SetError None,
      SetStatusMessage (Some ''Splitting PDF into OCR-safe chunks...''),
      SetStatusMessage (Some ''Processing PDF chunk 1/3...''), Fetch book_part1, Sleep 250,
      SetStatusMessage (Some ''Processing PDF chunk 2/3...''), Fetch book_part2, Sleep 250,
      SetStatusMessage (Some ''Processing PDF chunk 3/3...''), Fetch book_part3,
      SetText (''page'' @ [CHR 0x0A, CHR 0x0A] @ ''page''),
      SetIsProcessing False, SetStatusMessage None]"

text \<open>The same platform with a boundary that answers the second request of a run with
  status 500.\<close>

definition failing_env :: "(nat list, nat, nat, nat \<times> rat) env" where
  \<open>failing_env =
     demo_env\<lparr>fetch := (\<lambda>n f.
        if n = 1
        then Inr \<lparr>status = 500, contentType = Some ''application/json'',
                  bodyText = ''{"error":"Internal server error"}''\<rparr>
        else Inr \<lparr>status = 200, contentType = Some ''application/json'',
                  bodyText = ''{"text":"page"}''\<rparr>)\<rparr>\<close>

text \<open>What the run on the three-page PDF does then.\<close>

definition book_failed_run :: "nat list action list" where
  "book_failed_run =
     [SetIsProcessing True, SetStatusMessage (Some ''Preparing file...''), SetError None,
      SetStatusMessage (Some ''Splitting PDF into OCR-safe chunks...''),
      SetStatusMessage (Some ''Processing PDF chunk 1/3...''), Fetch book_part1, Sleep 250,
      SetStatusMessage (Some ''Processing PDF chunk 2/3...''), Fetch book_part2,
      SetError (Some ''Internal server error (HTTP 500)''),
      SetIsProcessing False, SetStatusMessage None]"

text \<open>The page before anything is dropped on it.\<close>

definition initial_ui :: "nat list ui" where
  "initial_ui =
     \<lparr>st_file = None, st_text = [], st_isProcessing = False, st_statusMessage = None,
      st_error = None\<rparr>"

text \<open>A second image, and what the runs on the two images do when each is alone.\<close>

definition receipt_image :: "nat list File" where
  "receipt_image =
     \<lparr>name = ''receipt.png'', ftype = ''image/png'', fsize = 1024 * 1024,
      body = [1024 * 1024]\<rparr>"

definition photo_run :: "nat list action list" where
  "photo_run =
     [SetIsProcessing True, SetStatusMessage (Some ''Preparing file...''), SetError None,
      SetStatusMessage (Some ''Processing image...''), Fetch small_image, SetText ''page'',
      SetIsProcessing False, SetStatusMessage None]"

definition receipt_run :: "nat list action list" where
  "receipt_run =
     [SetIsProcessing True, SetStatusMessage (Some ''Preparing file...''), SetError None,
      SetStatusMessage (Some ''Processing image...''), Fetch receipt_image, SetText ''other'',
      SetIsProcessing False, SetStatusMessage None]"





section \<open>The inner loop of the splitter\<close>

lemma PDF_CHUNK_MAX_PAGES_pos: "0 < PDF_CHUNK_MAX_PAGES"
  by (simp add: PDF_CHUNK_MAX_PAGES_def)

lemma target_below_limit: "PDF_CHUNK_TARGET_BYTES < OCR_PDF_LIMIT_BYTES"
  by (simp add: PDF_CHUNK_TARGET_BYTES_def OCR_PDF_LIMIT_BYTES_def)

lemma shrinkChunk_terminates:
  "\<exists>r. shrinkChunk e source fileName partNumber cursor endPage chunk = Some r"
proof (induction endPage arbitrary: chunk)
  case 0
  show ?case by (subst shrinkChunk.simps) simp
next
  case (Suc k)
  show ?case
  proof (cases "fsize chunk > PDF_CHUNK_TARGET_BYTES \<and> Suc k - cursor > 1")
    case False
    then show ?thesis by (subst shrinkChunk.simps) auto
  next
    case True
    show ?thesis
    proof (cases "createPdfChunk e source cursor k fileName partNumber")
      case (Inl x)
      with True show ?thesis by (subst shrinkChunk.simps) simp
    next
      case (Inr chunk')
      with True Suc.IH [of chunk'] show ?thesis by (subst shrinkChunk.simps) simp
    qed
  qed
qed

text \<open>
  Where the inner loop stops: at an end page after the cursor and not after the one
  it started from, with a chunk within the target or of one page; and the chunk is
  the one made of that page range.
\<close>

lemma shrinkChunk_result:
  assumes "shrinkChunk e source fileName partNumber cursor endPage chunk = Some (Inr (endPage', chunk'))"
    and "cursor < endPage"
  shows "cursor < endPage' \<and> endPage' \<le> endPage
     \<and> (fsize chunk' \<le> PDF_CHUNK_TARGET_BYTES \<or> endPage' = cursor + 1)
     \<and> (createPdfChunk e source cursor endPage fileName partNumber = Inr chunk
          \<longrightarrow> createPdfChunk e source cursor endPage' fileName partNumber = Inr chunk')"
  using assms
proof (induction endPage arbitrary: chunk)
  case 0
  then show ?case by simp
next
  case (Suc k)
  note unf = shrinkChunk.simps [of e source fileName partNumber cursor "Suc k" chunk,
      unfolded diff_Suc_1]
  show ?case
  proof (cases "fsize chunk > PDF_CHUNK_TARGET_BYTES \<and> Suc k - cursor > 1")
    case False
    with Suc.prems(1) unf have "endPage' = Suc k \<and> chunk' = chunk"
      by (simp split: if_splits)
    with False Suc.prems(2) show ?thesis by auto
  next
    case True
    with Suc.prems(1) unf
    have step: "(case createPdfChunk e source cursor k fileName partNumber of
                  Inl x \<Rightarrow> Some (Inl x)
                | Inr c \<Rightarrow> shrinkChunk e source fileName partNumber cursor k c)
                = Some (Inr (endPage', chunk'))"
      by (simp split: if_splits)
    then obtain c1 where c1: "createPdfChunk e source cursor k fileName partNumber = Inr c1"
      by (cases "createPdfChunk e source cursor k fileName partNumber") simp_all
    with step
    have "shrinkChunk e source fileName partNumber cursor k c1 = Some (Inr (endPage', chunk'))"
      by simp
    moreover from True have "cursor < k" by arith
    ultimately have "cursor < endPage' \<and> endPage' \<le> k
     \<and> (fsize chunk' \<le> PDF_CHUNK_TARGET_BYTES \<or> endPage' = cursor + 1)
     \<and> (createPdfChunk e source cursor k fileName partNumber = Inr c1
          \<longrightarrow> createPdfChunk e source cursor endPage' fileName partNumber = Inr chunk')"
      by (rule Suc.IH)
    with c1 show ?thesis by simp
  qed
qed

section \<open>The outer loop of the splitter\<close>

lemma cursorAfter_append:
  "cursorAfter a (xs @ ys) = cursorAfter (cursorAfter a xs) ys"
  by (induction xs arbitrary: a) auto

lemma accepted_append:
  "accepted e source fileName a p (xs @ ys) \<longleftrightarrow>
     accepted e source fileName a p xs \<and>
     accepted e source fileName (cursorAfter a xs) (p + length xs) ys"
  by (induction xs arbitrary: a p) auto

text \<open>What one accepted chunk satisfies.\<close>

lemma accepted_step:
  assumes "accepted e source fileName cursor partNumber [(s, t, c)]"
  shows "s = cursor \<and> s < t \<and> t \<le> length source \<and> t \<le> s + PDF_CHUNK_MAX_PAGES
     \<and> createPdfChunk e source s t fileName partNumber = Inr c
     \<and> (fsize c \<le> PDF_CHUNK_TARGET_BYTES \<or> t = s + 1 \<and> fsize c \<le> OCR_PDF_LIMIT_BYTES)"
proof -
  let ?m = "min (cursor + PDF_CHUNK_MAX_PAGES) (length source)"
  from assms have s: "s = cursor" and lt: "cursor < length source"
    and lim: "fsize c \<le> OCR_PDF_LIMIT_BYTES" by simp_all
  from assms obtain chunk0 where
    c0: "createPdfChunk e source cursor ?m fileName partNumber = Inr chunk0"
    and sh: "shrinkChunk e source fileName partNumber cursor ?m chunk0 = Some (Inr (t, c))"
    by (cases "createPdfChunk e source cursor ?m fileName partNumber") simp_all
  from lt PDF_CHUNK_MAX_PAGES_pos have "cursor < ?m" by simp
  from shrinkChunk_result [OF sh this] c0
  have "cursor < t" "t \<le> ?m" "fsize c \<le> PDF_CHUNK_TARGET_BYTES \<or> t = cursor + 1"
    "createPdfChunk e source cursor t fileName partNumber = Inr c" by simp_all
  with s lim show ?thesis by auto
qed

lemma splitLoop_unfold_accept:
  assumes "accepted e source fileName cursor partNumber [(s, t, c)]"
  shows "splitLoop e source fileName cursor partNumber chunks =
         splitLoop e source fileName t (partNumber + 1) (chunks @ [(cursor, t, c)])"
proof -
  let ?m = "min (cursor + PDF_CHUNK_MAX_PAGES) (length source)"
  from assms have lt: "cursor < length source"
    and lim: "\<not> fsize c > OCR_PDF_LIMIT_BYTES" by simp_all
  from assms obtain chunk0 where
    c0: "createPdfChunk e source cursor ?m fileName partNumber = Inr chunk0"
    and sh: "shrinkChunk e source fileName partNumber cursor ?m chunk0 = Some (Inr (t, c))"
    by (cases "createPdfChunk e source cursor ?m fileName partNumber") simp_all
  show ?thesis
    by (subst splitLoop.simps) (simp add: lt c0 sh lim)
qed

text \<open>The loop after a list of accepted chunks is the loop from the start.\<close>

lemma splitLoop_prefix:
  "accepted e source fileName a p xs \<Longrightarrow>
   splitLoop e source fileName a p acc =
   splitLoop e source fileName (cursorAfter a xs) (p + length xs) (acc @ xs)"
proof (induction xs arbitrary: a p acc)
  case Nil
  then show ?case by simp
next
  case (Cons x xs)
  obtain s t c where x: "x = (s, t, c)" by (cases x)
  from Cons.prems x have one: "accepted e source fileName a p [(s, t, c)]"
    and rest: "accepted e source fileName t (p + 1) xs" and sa: "s = a" by simp_all
  from splitLoop_unfold_accept [OF one]
  have "splitLoop e source fileName a p acc =
        splitLoop e source fileName t (p + 1) (acc @ [(a, t, c)])" .
  also from Cons.IH [OF rest]
  have "\<dots> = splitLoop e source fileName (cursorAfter t xs) (p + 1 + length xs)
                 ((acc @ [(a, t, c)]) @ xs)" .
  finally show ?case using x sa by simp
qed

text \<open>The loop stops when a single page is over the hard limit.\<close>

lemma splitLoop_page_too_large:
  assumes "cursor < length source"
    and "createPdfChunk e source cursor
           (min (cursor + PDF_CHUNK_MAX_PAGES) (length source)) fileName partNumber = Inr chunk0"
    and "shrinkChunk e source fileName partNumber cursor
           (min (cursor + PDF_CHUNK_MAX_PAGES) (length source)) chunk0 = Some (Inr (t, c))"
    and "fsize c > OCR_PDF_LIMIT_BYTES"
  shows "t = cursor + 1 \<and>
         splitLoop e source fileName cursor partNumber chunks =
           Some (Inl (Error ''A single PDF page exceeds the OCR API file size limit. Please reduce page resolution and try again.''))"
proof -
  from assms(1) PDF_CHUNK_MAX_PAGES_pos
  have "cursor < min (cursor + PDF_CHUNK_MAX_PAGES) (length source)" by simp
  from shrinkChunk_result [OF assms(3) this] assms(4) target_below_limit
  have "t = cursor + 1" by auto
  moreover have "splitLoop e source fileName cursor partNumber chunks =
           Some (Inl (Error ''A single PDF page exceeds the OCR API file size limit. Please reduce page resolution and try again.''))"
    by (subst splitLoop.simps) (simp add: assms)
  ultimately show ?thesis by simp
qed

lemma splitLoop_terminates:
  "\<exists>r. splitLoop e source fileName cursor partNumber chunks = Some r"
proof (induction "length source - cursor" arbitrary: cursor partNumber chunks rule: less_induct)
  case less
  let ?m = "min (cursor + PDF_CHUNK_MAX_PAGES) (length source)"
  note unf = splitLoop.simps [of e source fileName cursor partNumber chunks]
  show ?case
  proof (cases "cursor < length source")
    case False
    with unf show ?thesis by simp
  next
    case lt: True
    show ?thesis
    proof (cases "createPdfChunk e source cursor ?m fileName partNumber")
      case (Inl x)
      with lt unf show ?thesis by simp
    next
      case c0: (Inr chunk0)
      from shrinkChunk_terminates [of e source fileName partNumber cursor ?m chunk0]
      obtain r where r: "shrinkChunk e source fileName partNumber cursor ?m chunk0 = Some r" ..
      show ?thesis
      proof (cases r)
        case (Inl x)
        with lt c0 r unf show ?thesis by simp
      next
        case (Inr pr)
        obtain t c where pr: "pr = (t, c)" by (cases pr)
        show ?thesis
        proof (cases "fsize c > OCR_PDF_LIMIT_BYTES")
          case True
          with lt c0 r Inr pr unf show ?thesis by simp
        next
          case False
          from lt PDF_CHUNK_MAX_PAGES_pos have "cursor < ?m" by simp
          from shrinkChunk_result [OF r [unfolded Inr pr] this]
          have "cursor < t" by simp
          with lt have "length source - t < length source - cursor" by arith
          from less [OF this, of "partNumber + 1" "chunks @ [(cursor, t, c)]"]
          obtain r' where "splitLoop e source fileName t (partNumber + 1)
                             (chunks @ [(cursor, t, c)]) = Some r'" ..
          with False lt c0 r Inr pr unf show ?thesis by simp
        qed
      qed
    qed
  qed
qed

text \<open>What the loop returns: the chunks it had, then accepted chunks up to the last page.\<close>

lemma splitLoop_accepted:
  assumes "splitLoop e source fileName cursor partNumber acc = Some (Inr out)"
  shows "\<exists>xs. out = acc @ xs \<and> accepted e source fileName cursor partNumber xs
           \<and> length source \<le> cursorAfter cursor xs"
  using assms
proof (induction "length source - cursor" arbitrary: cursor partNumber acc rule: less_induct)
  case less
  let ?m = "min (cursor + PDF_CHUNK_MAX_PAGES) (length source)"
  note unf = splitLoop.simps [of e source fileName cursor partNumber acc]
  show ?case
  proof (cases "cursor < length source")
    case False
    with unf less.prems have "out = acc" by simp
    with False show ?thesis by (intro exI [of _ "[]"]) simp
  next
    case lt: True
    from lt unf less.prems obtain chunk0 where
      c0: "createPdfChunk e source cursor ?m fileName partNumber = Inr chunk0"
      by (cases "createPdfChunk e source cursor ?m fileName partNumber") simp_all
    from lt c0 unf less.prems obtain t c where
      sh: "shrinkChunk e source fileName partNumber cursor ?m chunk0 = Some (Inr (t, c))"
      by (cases "shrinkChunk e source fileName partNumber cursor ?m chunk0")
         (auto split: sum.splits)
    from lt c0 sh unf less.prems have lim: "\<not> fsize c > OCR_PDF_LIMIT_BYTES"
      by (auto split: if_splits)
    with lt c0 sh unf less.prems
    have rec: "splitLoop e source fileName t (partNumber + 1) (acc @ [(cursor, t, c)]) = Some (Inr out)"
      by simp
    from lt PDF_CHUNK_MAX_PAGES_pos have "cursor < ?m" by simp
    from shrinkChunk_result [OF sh this] have "cursor < t" by simp
    with lt have "length source - t < length source - cursor" by arith
    from less.hyps [OF this rec] obtain xs where
      xs: "out = (acc @ [(cursor, t, c)]) @ xs"
        "accepted e source fileName t (partNumber + 1) xs"
        "length source \<le> cursorAfter t xs" by blast
    from lt c0 sh lim xs
    have "out = acc @ ((cursor, t, c) # xs) \<and>
          accepted e source fileName cursor partNumber ((cursor, t, c) # xs) \<and>
          length source \<le> cursorAfter cursor ((cursor, t, c) # xs)"
      by simp
    then show ?thesis by blast
  qed
qed

section \<open>The chunks of a split\<close>

lemma upt_append_upt: "a \<le> t \<Longrightarrow> t \<le> b \<Longrightarrow> [a..<t] @ [t..<b] = [a..<(b::nat)]"
  by (metis le_Suc_ex upt_add_eq_append)

lemma accepted_head:
  "accepted e source fileName a p ((s, t, c) # xs) \<Longrightarrow>
     accepted e source fileName a p [(s, t, c)] \<and> accepted e source fileName t (p + 1) xs"
  by simp

text \<open>Accepted chunks cover the pages from the cursor on, in order and without a gap.\<close>

lemma accepted_bounds:
  "accepted e source fileName a p xs \<Longrightarrow> a \<le> length source \<Longrightarrow>
     a \<le> cursorAfter a xs \<and> cursorAfter a xs \<le> length source \<and>
     concat (map (\<lambda>(s, t, c). [s..<t]) xs) = [a..<cursorAfter a xs]"
proof (induction xs arbitrary: a p)
  case Nil
  then show ?case by simp
next
  case (Cons x xs)
  obtain s t c where x: "x = (s, t, c)" by (cases x)
  from Cons.prems(1) x accepted_head
  have one: "accepted e source fileName a p [(s, t, c)]"
    and rest: "accepted e source fileName t (p + 1) xs" by blast+
  from accepted_step [OF one] have st: "s = a" "s < t" "t \<le> length source" by simp_all
  from Cons.IH [OF rest st(3)]
  have ih: "t \<le> cursorAfter t xs" "cursorAfter t xs \<le> length source"
    "concat (map (\<lambda>(s, t, c). [s..<t]) xs) = [t..<cursorAfter t xs]" by simp_all
  from st ih(1) have "[a..<t] @ [t..<cursorAfter t xs] = [a..<cursorAfter t xs]"
    by (intro upt_append_upt) simp_all
  with x st ih show ?case by simp
qed

lemma cursorAfter_take_Suc:
  "i < length xs \<Longrightarrow> cursorAfter a (take (Suc i) xs) = fst (snd (xs ! i))"
  by (cases "xs ! i") (simp add: take_Suc_conv_app_nth cursorAfter_append)

text \<open>The \<open>i\<close>-th accepted chunk.\<close>

lemma accepted_nth:
  "accepted e source fileName a p xs \<Longrightarrow> i < length xs \<Longrightarrow>
     fst (xs ! i) = cursorAfter a (take i xs) \<and>
     fst (xs ! i) < fst (snd (xs ! i)) \<and>
     createPdfChunk e source (fst (xs ! i)) (fst (snd (xs ! i))) fileName (p + i)
       = Inr (snd (snd (xs ! i))) \<and>
     (fsize (snd (snd (xs ! i))) \<le> PDF_CHUNK_TARGET_BYTES \<or>
      fst (snd (xs ! i)) = fst (xs ! i) + 1 \<and> fsize (snd (snd (xs ! i))) \<le> OCR_PDF_LIMIT_BYTES)"
proof (induction xs arbitrary: a p i)
  case Nil
  then show ?case by simp
next
  case (Cons x xs)
  obtain s t c where x: "x = (s, t, c)" by (cases x)
  from Cons.prems(1) x accepted_head
  have one: "accepted e source fileName a p [(s, t, c)]"
    and rest: "accepted e source fileName t (p + 1) xs" by blast+
  show ?case
  proof (cases i)
    case 0
    with accepted_step [OF one] x show ?thesis by auto
  next
    case (Suc j)
    with Cons.prems(2) have "j < length xs" by simp
    from Cons.IH [OF rest this] Suc x show ?thesis by auto
  qed
qed

text \<open>A successful split, with the page range of every chunk.\<close>

lemma split_ranges:
  assumes "splitPdfForOcr e f = Some (Inr (chunks, pageCount))"
  shows "\<exists>source xs. load e (body f) = Inr source \<and> pageCount = length source \<and>
           chunks = map (\<lambda>(s, t, c). c) xs \<and> accepted e source (name f) 0 1 xs \<and>
           cursorAfter 0 xs = length source"
proof -
  from assms obtain xs where r: "splitPdfRanges e f = Some (Inr (xs, pageCount))"
    and ch: "chunks = map (\<lambda>(s, t, c). c) xs"
    by (auto simp: splitPdfForOcr_def split: option.splits sum.splits)
  from r obtain source where ld: "load e (body f) = Inr source"
    and lp: "splitLoop e source (name f) 0 1 [] = Some (Inr xs)" and pc: "pageCount = length source"
    by (auto simp: splitPdfRanges_def split: option.splits sum.splits)
  from splitLoop_accepted [OF lp]
  have acc: "accepted e source (name f) 0 1 xs" and ge: "length source \<le> cursorAfter 0 xs"
    by simp_all
  from accepted_bounds [OF acc] have "cursorAfter 0 xs \<le> length source" by simp
  with ge ld pc ch acc show ?thesis by auto
qed

lemma demo_split:
  "splitPdfForOcr demo_env demo_pdf = Some (Inr ([demo_chunk1, demo_chunk2], 3))"
  by (simp add: splitPdfForOcr_def splitPdfRanges_def splitLoop.simps shrinkChunk.simps
      createPdfChunk_def copyPages_def demo_env_def demo_pdf_def demo_chunk1_def demo_chunk2_def
      replaceExtension_def stripExtension_def show_nat.simps upt_rec
      PDF_CHUNK_MAX_PAGES_def PDF_CHUNK_TARGET_BYTES_def OCR_PDF_LIMIT_BYTES_def)

text \<open>
  C1. When \<open>splitPdfForOcr\<close> succeeds, its chunks are the files made of page ranges
  that partition the document: every range is non-empty, the first starts at page 0,
  each next one starts where the one before ends, the last ends at the page count,
  and the ranges put end to end list every page from 0 to the page count once.
\<close>

theorem splitPdfForOcr_partition:
  assumes "splitPdfForOcr e f = Some (Inr (chunks, pageCount))"
  shows "\<exists>source ranges.
      load e (body f) = Inr source \<and> pageCount = length source \<and>
      length ranges = length chunks \<and>
      (\<forall>i<length chunks.
         createPdfChunk e source (fst (ranges ! i)) (snd (ranges ! i)) (name f) (i + 1)
           = Inr (chunks ! i)) \<and>
      (\<forall>i<length ranges. fst (ranges ! i) < snd (ranges ! i)) \<and>
      (\<forall>i. Suc i < length ranges \<longrightarrow> fst (ranges ! Suc i) = snd (ranges ! i)) \<and>
      (ranges \<noteq> [] \<longrightarrow> fst (hd ranges) = 0 \<and> snd (last ranges) = pageCount) \<and>
      concat (map (\<lambda>(s, t). [s..<t]) ranges) = [0..<pageCount]"
proof -
  from split_ranges [OF assms] obtain source xs where
    ld: "load e (body f) = Inr source" and pc: "pageCount = length source"
    and ch: "chunks = map (\<lambda>(s, t, c). c) xs"
    and acc: "accepted e source (name f) 0 1 xs"
    and fin: "cursorAfter 0 xs = length source" by blast
  define ranges where "ranges = map (\<lambda>(s, t, c). (s, t)) xs"
  have len: "length ranges = length chunks" by (simp add: ranges_def ch)
  have nth_r: "fst (ranges ! i) = fst (xs ! i) \<and> snd (ranges ! i) = fst (snd (xs ! i))"
    if "i < length xs" for i
    using that by (cases "xs ! i") (simp add: ranges_def)
  have nth_c: "chunks ! i = snd (snd (xs ! i))" if "i < length xs" for i
    using that by (cases "xs ! i") (simp add: ch)
  have files: "\<forall>i<length chunks.
         createPdfChunk e source (fst (ranges ! i)) (snd (ranges ! i)) (name f) (i + 1)
           = Inr (chunks ! i)"
  proof (intro allI impI)
    fix i assume "i < length chunks"
    then have i: "i < length xs" by (simp add: ch)
    from accepted_nth [OF acc i]
    have "createPdfChunk e source (fst (xs ! i)) (fst (snd (xs ! i))) (name f) (1 + i)
            = Inr (snd (snd (xs ! i)))" by blast
    with nth_r [OF i] nth_c [OF i]
    show "createPdfChunk e source (fst (ranges ! i)) (snd (ranges ! i)) (name f) (i + 1)
           = Inr (chunks ! i)" by (simp add: add.commute)
  qed
  have nonempty: "\<forall>i<length ranges. fst (ranges ! i) < snd (ranges ! i)"
  proof (intro allI impI)
    fix i assume "i < length ranges"
    then have i: "i < length xs" by (simp add: ranges_def)
    from accepted_nth [OF acc i] have "fst (xs ! i) < fst (snd (xs ! i))" by blast
    with nth_r [OF i] show "fst (ranges ! i) < snd (ranges ! i)" by simp
  qed
  have adjacent: "\<forall>i. Suc i < length ranges \<longrightarrow> fst (ranges ! Suc i) = snd (ranges ! i)"
  proof (intro allI impI)
    fix i assume "Suc i < length ranges"
    then have si: "Suc i < length xs" and i: "i < length xs" by (simp_all add: ranges_def)
    from accepted_nth [OF acc si] have "fst (xs ! Suc i) = cursorAfter 0 (take (Suc i) xs)"
      by blast
    also from cursorAfter_take_Suc [OF i] have "\<dots> = fst (snd (xs ! i))" .
    finally show "fst (ranges ! Suc i) = snd (ranges ! i)"
      using nth_r [OF si] nth_r [OF i] by simp
  qed
  have ends: "ranges \<noteq> [] \<longrightarrow> fst (hd ranges) = 0 \<and> snd (last ranges) = pageCount"
  proof
    assume ne: "ranges \<noteq> []"
    then have xne: "xs \<noteq> []" and z: "0 < length xs" by (simp_all add: ranges_def)
    from accepted_nth [OF acc z] have "fst (xs ! 0) = cursorAfter 0 (take 0 xs)" by blast
    with nth_r [OF z] ne have "fst (hd ranges) = 0"
      by (simp add: hd_conv_nth)
    moreover from xne have l: "length xs - 1 < length xs" by simp
    from xne have "take (Suc (length xs - 1)) xs = xs" by simp
    with cursorAfter_take_Suc [OF l, of 0] fin
    have "fst (snd (xs ! (length xs - 1))) = length source" by simp
    with nth_r [OF l] ne pc have "snd (last ranges) = pageCount"
      by (simp add: last_conv_nth ranges_def)
    ultimately show "fst (hd ranges) = 0 \<and> snd (last ranges) = pageCount" by simp
  qed
  have "map (\<lambda>(s, t). [s..<t]) ranges = map (\<lambda>(s, t, c). [s..<t]) xs"
    by (simp add: ranges_def case_prod_unfold comp_def)
  with accepted_bounds [OF acc] fin pc
  have cover: "concat (map (\<lambda>(s, t). [s..<t]) ranges) = [0..<pageCount]" by simp
  from ld pc len files nonempty adjacent ends cover show ?thesis by blast
qed

theorem splitPdfForOcr_partition_witness:
  "splitPdfForOcr demo_env demo_pdf = Some (Inr ([demo_chunk1, demo_chunk2], 3)) \<and>
   (\<exists>ranges. length ranges = 2 \<and>
      fst (ranges ! 0) < snd (ranges ! 0) \<and> fst (ranges ! 1) < snd (ranges ! 1) \<and>
      fst (hd ranges) = 0 \<and> fst (ranges ! 1) = snd (ranges ! 0) \<and> snd (last ranges) = 3 \<and>
      concat (map (\<lambda>(s, t). [s..<t]) ranges) = [0..<3])"
proof -
  have h: "splitPdfForOcr demo_env demo_pdf = Some (Inr ([demo_chunk1, demo_chunk2], 3))"
    by (rule demo_split)
  from splitPdfForOcr_partition [OF h] obtain ranges :: "(nat \<times> nat) list" where
    r: "length ranges = length [demo_chunk1, demo_chunk2]"
      "\<forall>i<length ranges. fst (ranges ! i) < snd (ranges ! i)"
      "\<forall>i. Suc i < length ranges \<longrightarrow> fst (ranges ! Suc i) = snd (ranges ! i)"
      "ranges \<noteq> [] \<longrightarrow> fst (hd ranges) = 0 \<and> snd (last ranges) = 3"
      "concat (map (\<lambda>(s, t). [s..<t]) ranges) = [0..<3]" by blast
  from r(1) have l: "length ranges = 2" by simp
  with r(2) have "fst (ranges ! 0) < snd (ranges ! 0)" "fst (ranges ! 1) < snd (ranges ! 1)"
    by simp_all
  moreover from l r(3) have "fst (ranges ! 1) = snd (ranges ! 0)" by (metis One_nat_def Suc_1 lessI)
  moreover from l r(4) have "fst (hd ranges) = 0" "snd (last ranges) = 3" by auto
  ultimately show ?thesis using h l r(5) by blast
qed

lemma big_page_create:
  "createPdfChunk demo_env (body big_page_pdf) 0 1 ''poster.pdf'' 1 =
     Inr \<lparr>name = ''poster.part-1.pdf'', ftype = ''application/pdf'', fsize = 55 * 1024 * 1024,
          body = [55 * 1024 * 1024]\<rparr>"
  by (simp add: createPdfChunk_def copyPages_def demo_env_def big_page_pdf_def
      replaceExtension_def stripExtension_def show_nat.simps upt_rec)

lemma big_page_shrink:
  "shrinkChunk demo_env (body big_page_pdf) ''poster.pdf'' 1 0 1
     \<lparr>name = ''poster.part-1.pdf'', ftype = ''application/pdf'', fsize = 55 * 1024 * 1024,
      body = [55 * 1024 * 1024]\<rparr>
   = Some (Inr (1, \<lparr>name = ''poster.part-1.pdf'', ftype = ''application/pdf'',
                    fsize = 55 * 1024 * 1024, body = [55 * 1024 * 1024]\<rparr>))"
  by (simp add: shrinkChunk.simps)

text \<open>
  C2. Every chunk of a successful split is within the target of 45 MiB, or it is a
  single page within the hard limit of 50 MiB. And when, after any number of accepted
  chunks, the next chunk has been shrunk and is still over the hard limit, it is a
  single page and the split ends with the error, so that no chunk is returned.
\<close>

theorem splitPdfForOcr_budget:
  "(splitPdfForOcr e f = Some (Inr (chunks, pageCount)) \<longrightarrow>
      (\<exists>source ranges.
         load e (body f) = Inr source \<and> length ranges = length chunks \<and>
         (\<forall>i<length chunks.
            createPdfChunk e source (fst (ranges ! i)) (snd (ranges ! i)) (name f) (i + 1)
              = Inr (chunks ! i) \<and>
            (fsize (chunks ! i) \<le> PDF_CHUNK_TARGET_BYTES \<or>
             snd (ranges ! i) = fst (ranges ! i) + 1 \<and>
             fsize (chunks ! i) \<le> OCR_PDF_LIMIT_BYTES)))) \<and>
   (load e (body f) = Inr source \<and>
    accepted e source (name f) 0 1 acc \<and>
    cursorAfter 0 acc < length source \<and>
    createPdfChunk e source (cursorAfter 0 acc)
      (min (cursorAfter 0 acc + PDF_CHUNK_MAX_PAGES) (length source)) (name f) (1 + length acc)
      = Inr chunk0 \<and>
    shrinkChunk e source (name f) (1 + length acc) (cursorAfter 0 acc)
      (min (cursorAfter 0 acc + PDF_CHUNK_MAX_PAGES) (length source)) chunk0
      = Some (Inr (t, c)) \<and>
    fsize c > OCR_PDF_LIMIT_BYTES \<longrightarrow>
      t = cursorAfter 0 acc + 1 \<and>
      splitPdfForOcr e f =
        Some (Inl (Error ''A single PDF page exceeds the OCR API file size limit. Please reduce page resolution and try again.'')))"
proof (intro conjI impI)
  assume ok: "splitPdfForOcr e f = Some (Inr (chunks, pageCount))"
  from split_ranges [OF ok] obtain src xs where
    ld: "load e (body f) = Inr src"
    and ch: "chunks = map (\<lambda>(s, t, c). c) xs"
    and acc: "accepted e src (name f) 0 1 xs" by blast
  define ranges where "ranges = map (\<lambda>(s, t, c). (s, t)) xs"
  have len: "length ranges = length chunks" by (simp add: ranges_def ch)
  have "\<forall>i<length chunks.
            createPdfChunk e src (fst (ranges ! i)) (snd (ranges ! i)) (name f) (i + 1)
              = Inr (chunks ! i) \<and>
            (fsize (chunks ! i) \<le> PDF_CHUNK_TARGET_BYTES \<or>
             snd (ranges ! i) = fst (ranges ! i) + 1 \<and>
             fsize (chunks ! i) \<le> OCR_PDF_LIMIT_BYTES)"
  proof (intro allI impI)
    fix i assume "i < length chunks"
    then have i: "i < length xs" by (simp add: ch)
    have r: "fst (ranges ! i) = fst (xs ! i)" "snd (ranges ! i) = fst (snd (xs ! i))"
      using i by (cases "xs ! i", simp add: ranges_def)+
    have c: "chunks ! i = snd (snd (xs ! i))"
      using i by (cases "xs ! i") (simp add: ch)
    from accepted_nth [OF acc i]
    have "createPdfChunk e src (fst (xs ! i)) (fst (snd (xs ! i))) (name f) (1 + i)
            = Inr (snd (snd (xs ! i)))"
      and "fsize (snd (snd (xs ! i))) \<le> PDF_CHUNK_TARGET_BYTES \<or>
           fst (snd (xs ! i)) = fst (xs ! i) + 1 \<and>
           fsize (snd (snd (xs ! i))) \<le> OCR_PDF_LIMIT_BYTES" by blast+
    then show "createPdfChunk e src (fst (ranges ! i)) (snd (ranges ! i)) (name f) (i + 1)
              = Inr (chunks ! i) \<and>
            (fsize (chunks ! i) \<le> PDF_CHUNK_TARGET_BYTES \<or>
             snd (ranges ! i) = fst (ranges ! i) + 1 \<and>
             fsize (chunks ! i) \<le> OCR_PDF_LIMIT_BYTES)"
      by (simp add: r c add.commute)
  qed
  with ld len show "\<exists>source ranges.
         load e (body f) = Inr source \<and> length ranges = length chunks \<and>
         (\<forall>i<length chunks.
            createPdfChunk e source (fst (ranges ! i)) (snd (ranges ! i)) (name f) (i + 1)
              = Inr (chunks ! i) \<and>
            (fsize (chunks ! i) \<le> PDF_CHUNK_TARGET_BYTES \<or>
             snd (ranges ! i) = fst (ranges ! i) + 1 \<and>
             fsize (chunks ! i) \<le> OCR_PDF_LIMIT_BYTES))" by blast
next
  assume h: "load e (body f) = Inr source \<and>
    accepted e source (name f) 0 1 acc \<and>
    cursorAfter 0 acc < length source \<and>
    createPdfChunk e source (cursorAfter 0 acc)
      (min (cursorAfter 0 acc + PDF_CHUNK_MAX_PAGES) (length source)) (name f) (1 + length acc)
      = Inr chunk0 \<and>
    shrinkChunk e source (name f) (1 + length acc) (cursorAfter 0 acc)
      (min (cursorAfter 0 acc + PDF_CHUNK_MAX_PAGES) (length source)) chunk0
      = Some (Inr (t, c)) \<and>
    fsize c > OCR_PDF_LIMIT_BYTES"
  then have ld: "load e (body f) = Inr source"
    and acc: "accepted e source (name f) 0 1 acc"
    and lt: "cursorAfter 0 acc < length source"
    and c0: "createPdfChunk e source (cursorAfter 0 acc)
      (min (cursorAfter 0 acc + PDF_CHUNK_MAX_PAGES) (length source)) (name f) (1 + length acc)
      = Inr chunk0"
    and sh: "shrinkChunk e source (name f) (1 + length acc) (cursorAfter 0 acc)
      (min (cursorAfter 0 acc + PDF_CHUNK_MAX_PAGES) (length source)) chunk0
      = Some (Inr (t, c))"
    and big: "fsize c > OCR_PDF_LIMIT_BYTES" by blast+
  from splitLoop_page_too_large [OF lt c0 sh big, of "[] @ acc"]
  have t: "t = cursorAfter 0 acc + 1"
    and err: "splitLoop e source (name f) (cursorAfter 0 acc) (1 + length acc) ([] @ acc) =
       Some (Inl (Error ''A single PDF page exceeds the OCR API file size limit. Please reduce page resolution and try again.''))"
    by blast+
  from splitLoop_prefix [OF acc, of "[]"] err
  have "splitLoop e source (name f) 0 1 [] =
       Some (Inl (Error ''A single PDF page exceeds the OCR API file size limit. Please reduce page resolution and try again.''))"
    by simp
  with ld have "splitPdfForOcr e f =
       Some (Inl (Error ''A single PDF page exceeds the OCR API file size limit. Please reduce page resolution and try again.''))"
    by (simp add: splitPdfForOcr_def splitPdfRanges_def)
  then show "splitPdfForOcr e f =
       Some (Inl (Error ''A single PDF page exceeds the OCR API file size limit. Please reduce page resolution and try again.''))" .
  from t show "t = cursorAfter 0 acc + 1" .
qed

theorem splitPdfForOcr_budget_witness:
  "splitPdfForOcr demo_env demo_pdf = Some (Inr ([demo_chunk1, demo_chunk2], 3)) \<and>
   (\<exists>ranges :: (nat \<times> nat) list. length ranges = 2 \<and>
      (fsize demo_chunk1 \<le> PDF_CHUNK_TARGET_BYTES \<or>
       snd (ranges ! 0) = fst (ranges ! 0) + 1 \<and> fsize demo_chunk1 \<le> OCR_PDF_LIMIT_BYTES) \<and>
      (fsize demo_chunk2 \<le> PDF_CHUNK_TARGET_BYTES \<or>
       snd (ranges ! 1) = fst (ranges ! 1) + 1 \<and> fsize demo_chunk2 \<le> OCR_PDF_LIMIT_BYTES)) \<and>
   load demo_env (body big_page_pdf) = Inr [55 * 1024 * 1024] \<and>
   accepted demo_env [55 * 1024 * 1024] (name big_page_pdf) 0 1 [] \<and>
   OCR_PDF_LIMIT_BYTES < 55 * 1024 * 1024 \<and>
   splitPdfForOcr demo_env big_page_pdf =
     Some (Inl (Error ''A single PDF page exceeds the OCR API file size limit. Please reduce page resolution and try again.''))"
proof -
  let ?page = "\<lparr>name = ''poster.part-1.pdf'', ftype = ''application/pdf'',
                 fsize = 55 * 1024 * 1024, body = [55 * 1024 * 1024 :: nat]\<rparr>"
  note split_ok = splitPdfForOcr_budget [where e = demo_env and f = demo_pdf
      and chunks = "[demo_chunk1, demo_chunk2]" and pageCount = 3]
  note split_fails = splitPdfForOcr_budget [where e = demo_env and f = big_page_pdf
      and source = "[55 * 1024 * 1024]" and acc = "[]" and ?chunk0.0 = "?page" and t = 1
      and c = "?page"]
  have h: "splitPdfForOcr demo_env demo_pdf = Some (Inr ([demo_chunk1, demo_chunk2], 3))"
    by (rule demo_split)
  have ld: "load demo_env (body big_page_pdf) = Inr [55 * 1024 * 1024]"
    by (simp add: demo_env_def big_page_pdf_def)
  have acc: "accepted demo_env [55 * 1024 * 1024] (name big_page_pdf) 0 1 []" by simp
  have big: "OCR_PDF_LIMIT_BYTES < 55 * 1024 * 1024" by (simp add: OCR_PDF_LIMIT_BYTES_def)
  have nm: "name big_page_pdf = ''poster.pdf''" "body big_page_pdf = [55 * 1024 * 1024]"
    by (simp_all add: big_page_pdf_def)
  have c0: "createPdfChunk demo_env [55 * 1024 * 1024] (cursorAfter 0 [])
      (min (cursorAfter 0 [] + PDF_CHUNK_MAX_PAGES) (length [55 * 1024 * 1024 :: nat]))
      (name big_page_pdf) (1 + length []) = Inr ?page"
    using big_page_create by (simp add: nm PDF_CHUNK_MAX_PAGES_def)
  have sh: "shrinkChunk demo_env [55 * 1024 * 1024] (name big_page_pdf) (1 + length [])
      (cursorAfter 0 [])
      (min (cursorAfter 0 [] + PDF_CHUNK_MAX_PAGES) (length [55 * 1024 * 1024 :: nat])) ?page
      = Some (Inr (1, ?page))"
    using big_page_shrink by (simp add: nm PDF_CHUNK_MAX_PAGES_def)
  from split_ok h obtain ranges :: "(nat \<times> nat) list" where
    r: "length ranges = length [demo_chunk1, demo_chunk2]"
    "\<forall>i<length [demo_chunk1, demo_chunk2].
       fsize ([demo_chunk1, demo_chunk2] ! i) \<le> PDF_CHUNK_TARGET_BYTES \<or>
       snd (ranges ! i) = fst (ranges ! i) + 1 \<and>
       fsize ([demo_chunk1, demo_chunk2] ! i) \<le> OCR_PDF_LIMIT_BYTES" by blast
  from r(2) [rule_format, of 0] r(2) [rule_format, of 1] r(1)
  have first: "\<exists>ranges :: (nat \<times> nat) list. length ranges = 2 \<and>
      (fsize demo_chunk1 \<le> PDF_CHUNK_TARGET_BYTES \<or>
       snd (ranges ! 0) = fst (ranges ! 0) + 1 \<and> fsize demo_chunk1 \<le> OCR_PDF_LIMIT_BYTES) \<and>
      (fsize demo_chunk2 \<le> PDF_CHUNK_TARGET_BYTES \<or>
       snd (ranges ! 1) = fst (ranges ! 1) + 1 \<and> fsize demo_chunk2 \<le> OCR_PDF_LIMIT_BYTES)"
    by (intro exI [of _ ranges]) simp
  from split_fails ld acc c0 sh big
  have "splitPdfForOcr demo_env big_page_pdf =
     Some (Inl (Error ''A single PDF page exceeds the OCR API file size limit. Please reduce page resolution and try again.''))"
    by simp
  with h first ld acc big show ?thesis by blast
qed

text \<open>
  C6. \<open>splitPdfForOcr\<close> returns on every file, and so do its two loops from every
  state. The inner loop, when the chunk is over the target and has more than one
  page, goes on with the end page one lower; it stops at an end page after the cursor
  with a chunk within the target or of exactly one page. The outer loop, on
  accepting a chunk, goes on from its end page, which is after the cursor and not
  after the last page, so the pages left get fewer.
\<close>

theorem splitPdfForOcr_terminates:
  "(\<exists>r. splitPdfForOcr e f = Some r) \<and>
   (\<exists>r. shrinkChunk e source fileName partNumber cursor endPage chunk = Some r) \<and>
   (\<exists>r. splitLoop e source fileName cursor partNumber acc = Some r) \<and>
   (fsize chunk > PDF_CHUNK_TARGET_BYTES \<and> endPage - cursor > 1 \<and>
    createPdfChunk e source cursor (endPage - 1) fileName partNumber = Inr chunk1 \<longrightarrow>
      endPage - 1 < endPage \<and>
      shrinkChunk e source fileName partNumber cursor endPage chunk =
      shrinkChunk e source fileName partNumber cursor (endPage - 1) chunk1) \<and>
   (cursor < endPage \<and>
    shrinkChunk e source fileName partNumber cursor endPage chunk = Some (Inr (endPage', chunk')) \<longrightarrow>
      cursor < endPage' \<and> endPage' \<le> endPage \<and>
      (fsize chunk' \<le> PDF_CHUNK_TARGET_BYTES \<or> endPage' - cursor = 1)) \<and>
   (accepted e source fileName cursor partNumber [(s, t, c)] \<longrightarrow>
      cursor + 1 \<le> t \<and> t \<le> length source \<and>
      length source - t < length source - cursor \<and>
      splitLoop e source fileName cursor partNumber acc =
      splitLoop e source fileName t (partNumber + 1) (acc @ [(cursor, t, c)]))"
proof (intro conjI impI)
  show "\<exists>r. splitPdfForOcr e f = Some r"
  proof (cases "load e (body f)")
    case (Inl x)
    then show ?thesis by (simp add: splitPdfForOcr_def splitPdfRanges_def)
  next
    case (Inr src)
    from splitLoop_terminates [of e src "name f" 0 1 "[]"] obtain r where
      "splitLoop e src (name f) 0 1 [] = Some r" ..
    with Inr show ?thesis
      by (cases r) (simp_all add: splitPdfForOcr_def splitPdfRanges_def)
  qed
  show "\<exists>r. shrinkChunk e source fileName partNumber cursor endPage chunk = Some r"
    by (rule shrinkChunk_terminates)
  show "\<exists>r. splitLoop e source fileName cursor partNumber acc = Some r"
    by (rule splitLoop_terminates)
next
  assume h: "fsize chunk > PDF_CHUNK_TARGET_BYTES \<and> endPage - cursor > 1 \<and>
    createPdfChunk e source cursor (endPage - 1) fileName partNumber = Inr chunk1"
  then show "endPage - 1 < endPage" by arith
  from h show "shrinkChunk e source fileName partNumber cursor endPage chunk =
      shrinkChunk e source fileName partNumber cursor (endPage - 1) chunk1"
    by (subst shrinkChunk.simps) simp
next
  assume h: "cursor < endPage \<and>
    shrinkChunk e source fileName partNumber cursor endPage chunk = Some (Inr (endPage', chunk'))"
  then have lt: "cursor < endPage" and sh: "shrinkChunk e source fileName partNumber cursor endPage chunk = Some (Inr (endPage', chunk'))"
    by blast+
  from shrinkChunk_result [OF sh lt]
  have r: "cursor < endPage'" "endPage' \<le> endPage"
    "fsize chunk' \<le> PDF_CHUNK_TARGET_BYTES \<or> endPage' = cursor + 1" by blast+
  from r(1) show "cursor < endPage'" .
  from r(2) show "endPage' \<le> endPage" .
  from r(3) show "fsize chunk' \<le> PDF_CHUNK_TARGET_BYTES \<or> endPage' - cursor = 1" by auto
next
  assume a: "accepted e source fileName cursor partNumber [(s, t, c)]"
  from accepted_step [OF a] have st: "s = cursor" "s < t" "t \<le> length source" by blast+
  from st show "cursor + 1 \<le> t" by simp
  from st show "t \<le> length source" by simp
  from st show "length source - t < length source - cursor" by arith
  from splitLoop_unfold_accept [OF a]
  show "splitLoop e source fileName cursor partNumber acc =
      splitLoop e source fileName t (partNumber + 1) (acc @ [(cursor, t, c)])" .
qed

lemma demo_source: "body demo_pdf = [25 * 1024 * 1024, 25 * 1024 * 1024, 10 * 1024 * 1024]"
  by (simp add: demo_pdf_def)

lemma demo_create_two:
  "createPdfChunk demo_env (body demo_pdf) 0 2 ''scan.pdf'' 1 = Inr demo_two"
  by (simp add: createPdfChunk_def copyPages_def demo_env_def demo_pdf_def demo_two_def
      replaceExtension_def stripExtension_def show_nat.simps upt_rec)

lemma demo_create_whole:
  "createPdfChunk demo_env (body demo_pdf) 0 3 ''scan.pdf'' 1 = Inr demo_whole"
  by (simp add: createPdfChunk_def copyPages_def demo_env_def demo_pdf_def demo_whole_def
      replaceExtension_def stripExtension_def show_nat.simps upt_rec)

lemma demo_shrink:
  "shrinkChunk demo_env (body demo_pdf) ''scan.pdf'' 1 0 3 demo_whole = Some (Inr (1, demo_chunk1))"
  by (simp add: shrinkChunk.simps createPdfChunk_def copyPages_def demo_env_def demo_pdf_def
      demo_whole_def demo_chunk1_def replaceExtension_def stripExtension_def show_nat.simps
      upt_rec PDF_CHUNK_TARGET_BYTES_def)

lemma demo_accepted:
  "accepted demo_env (body demo_pdf) ''scan.pdf'' 0 1 [(0, 1, demo_chunk1)]"
  by (simp add: shrinkChunk.simps createPdfChunk_def copyPages_def demo_env_def demo_pdf_def
      demo_chunk1_def replaceExtension_def stripExtension_def show_nat.simps
      upt_rec PDF_CHUNK_TARGET_BYTES_def PDF_CHUNK_MAX_PAGES_def OCR_PDF_LIMIT_BYTES_def)

theorem splitPdfForOcr_terminates_witness:
  "fsize demo_whole > PDF_CHUNK_TARGET_BYTES \<and>
   createPdfChunk demo_env (body demo_pdf) 0 (3 - 1) ''scan.pdf'' 1 = Inr demo_two \<and>
   shrinkChunk demo_env (body demo_pdf) ''scan.pdf'' 1 0 3 demo_whole =
     shrinkChunk demo_env (body demo_pdf) ''scan.pdf'' 1 0 (3 - 1) demo_two \<and>
   shrinkChunk demo_env (body demo_pdf) ''scan.pdf'' 1 0 3 demo_whole = Some (Inr (1, demo_chunk1)) \<and>
   (fsize demo_chunk1 \<le> PDF_CHUNK_TARGET_BYTES \<or> 1 - 0 = (1::nat)) \<and>
   accepted demo_env (body demo_pdf) ''scan.pdf'' 0 1 [(0, 1, demo_chunk1)] \<and>
   length (body demo_pdf) - 1 < length (body demo_pdf) - 0 \<and>
   splitLoop demo_env (body demo_pdf) ''scan.pdf'' 0 1 [] =
     splitLoop demo_env (body demo_pdf) ''scan.pdf'' 1 (1 + 1) ([] @ [(0, 1, demo_chunk1)]) \<and>
   (\<exists>r. splitPdfForOcr demo_env demo_pdf = Some r)"
proof -
  note inst = splitPdfForOcr_terminates [where e = demo_env and f = demo_pdf
      and source = "body demo_pdf" and fileName = "''scan.pdf''" and partNumber = 1
      and cursor = 0 and endPage = 3 and chunk = demo_whole and ?chunk1.0 = demo_two
      and endPage' = 1 and chunk' = demo_chunk1 and s = 0 and t = 1 and c = demo_chunk1
      and acc = "[]"]
  have big: "fsize demo_whole > PDF_CHUNK_TARGET_BYTES"
    by (simp add: demo_whole_def PDF_CHUNK_TARGET_BYTES_def)
  have two: "createPdfChunk demo_env (body demo_pdf) 0 (3 - 1) ''scan.pdf'' 1 = Inr demo_two"
    using demo_create_two by simp
  have more: "3 - 0 > (1::nat)" "(0::nat) < 3" by simp_all
  from inst big two more demo_shrink demo_accepted show ?thesis by simp
qed

section \<open>Properties of the image compressor\<close>

text \<open>
  C9. An image of at most 10 MiB is returned as it is, whatever the decoder, the
  canvas and the encoder would do: none of them is asked.
\<close>

theorem compressImageForOcr_identity:
  "fsize f \<le> OCR_IMAGE_LIMIT_BYTES \<Longrightarrow> compressImageForOcr e f = Inr f"
  by (simp add: compressImageForOcr_def)

theorem compressImageForOcr_identity_witness:
  "fsize small_image \<le> OCR_IMAGE_LIMIT_BYTES \<and>
   compressImageForOcr demo_env small_image = Inr small_image"
proof -
  have h: "fsize small_image \<le> OCR_IMAGE_LIMIT_BYTES"
    by (simp add: small_image_def OCR_IMAGE_LIMIT_BYTES_def)
  from h compressImageForOcr_identity [OF h, of demo_env] show ?thesis by simp
qed

text \<open>Where a combination stands in the order of the two loops.\<close>

lemma map_Pair_split:
  "map (Pair x) qs = before @ (s, q) # rest \<Longrightarrow>
     \<exists>qa qb. x = s \<and> qs = qa @ q # qb \<and> before = map (Pair s) qa"
  by (auto simp: map_eq_append_conv map_eq_Cons_conv)

lemma append_split_cases:
  assumes "xs @ ys = before @ z # after"
  shows "(\<exists>rest. xs = before @ z # rest) \<or> (\<exists>us. xs @ us = before \<and> ys = us @ z # after)"
proof -
  from assms obtain us where
    "xs = before @ us \<and> us @ ys = z # after \<or> xs @ us = before \<and> ys = us @ z # after"
    by (auto simp: append_eq_append_conv2)
  then show ?thesis
  proof
    assume a: "xs = before @ us \<and> us @ ys = z # after"
    show ?thesis
    proof (cases us)
      case Nil
      with a show ?thesis by simp
    next
      case (Cons u us')
      with a show ?thesis by simp
    qed
  next
    assume "xs @ us = before \<and> ys = us @ z # after"
    then show ?thesis by blast
  qed
qed

lemma product_split:
  "List.product ss qs = before @ (s, q) # after \<Longrightarrow>
     \<exists>sa sb qa qb. ss = sa @ s # sb \<and> qs = qa @ q # qb \<and>
        before = List.product sa qs @ map (Pair s) qa"
proof (induction ss arbitrary: before)
  case Nil
  then show ?case by simp
next
  case (Cons x xs)
  from Cons.prems have "map (Pair x) qs @ List.product xs qs = before @ (s, q) # after"
    by simp
  from append_split_cases [OF this] show ?case
  proof
    assume "\<exists>rest. map (Pair x) qs = before @ (s, q) # rest"
    then obtain rest where "map (Pair x) qs = before @ (s, q) # rest" ..
    from map_Pair_split [OF this] obtain qa qb where
      "x = s" "qs = qa @ q # qb" "before = map (Pair s) qa" by blast
    then have "x # xs = [] @ s # xs \<and> qs = qa @ q # qb \<and>
        before = List.product [] qs @ map (Pair s) qa" by simp
    then show ?thesis by blast
  next
    assume "\<exists>us. map (Pair x) qs @ us = before \<and> List.product xs qs = us @ (s, q) # after"
    then obtain us where b: "map (Pair x) qs @ us = before"
      and r: "List.product xs qs = us @ (s, q) # after" by blast
    from Cons.IH [OF r] obtain sa sb qa qb where
      d: "xs = sa @ s # sb" "qs = qa @ q # qb" "us = List.product sa qs @ map (Pair s) qa"
      by blast
    with b have "x # xs = (x # sa) @ s # sb \<and> qs = qa @ q # qb \<and>
        before = List.product (x # sa) qs @ map (Pair s) qa" by simp
    then show ?thesis by blast
  qed
qed

lemma qualities_nonempty: "qualities \<noteq> []"
  by (simp add: qualities_def)

text \<open>The inner loop when every quality is over the budget, and when one fits.\<close>

lemma tryQualities_none:
  "\<forall>q\<in>set qs. \<exists>b. toBlob e canvas q = Some b \<and> byteLength e b > OCR_IMAGE_LIMIT_BYTES \<Longrightarrow>
     tryQualities e f canvas qs = Inr None"
  by (induction qs) (auto simp: canvasToBlob_def)

lemma tryQualities_first:
  "\<forall>q\<in>set qa. \<exists>b. toBlob e canvas q = Some b \<and> byteLength e b > OCR_IMAGE_LIMIT_BYTES \<Longrightarrow>
   toBlob e canvas quality = Some blob \<Longrightarrow> byteLength e blob \<le> OCR_IMAGE_LIMIT_BYTES \<Longrightarrow>
     tryQualities e f canvas (qa @ quality # qb) = Inr (Some (jpegFile e f blob))"
  by (induction qa) (auto simp: canvasToBlob_def)

lemma tryQualities_Some:
  "tryQualities e f canvas qs = Inr (Some out) \<Longrightarrow>
     \<exists>qa quality qb blob. qs = qa @ quality # qb \<and>
       (\<forall>q\<in>set qa. \<exists>b. toBlob e canvas q = Some b \<and> byteLength e b > OCR_IMAGE_LIMIT_BYTES) \<and>
       toBlob e canvas quality = Some blob \<and> byteLength e blob \<le> OCR_IMAGE_LIMIT_BYTES \<and>
       out = jpegFile e f blob"
proof (induction qs)
  case Nil
  then show ?case by simp
next
  case (Cons q qs)
  from Cons.prems obtain b where b: "toBlob e canvas q = Some b"
    by (cases "toBlob e canvas q") (simp_all add: canvasToBlob_def)
  show ?case
  proof (cases "byteLength e b \<le> OCR_IMAGE_LIMIT_BYTES")
    case True
    with Cons.prems b have "out = jpegFile e f b" by (simp add: canvasToBlob_def)
    with b True have "q # qs = [] @ q # qs \<and>
       (\<forall>q\<in>set []. \<exists>b. toBlob e canvas q = Some b \<and> byteLength e b > OCR_IMAGE_LIMIT_BYTES) \<and>
       toBlob e canvas q = Some b \<and> byteLength e b \<le> OCR_IMAGE_LIMIT_BYTES \<and>
       out = jpegFile e f b" by simp
    then show ?thesis by blast
  next
    case False
    with Cons.prems b have "tryQualities e f canvas qs = Inr (Some out)"
      by (simp add: canvasToBlob_def)
    from Cons.IH [OF this] obtain qa quality qb blob where
      d: "qs = qa @ quality # qb"
      "\<forall>q\<in>set qa. \<exists>b. toBlob e canvas q = Some b \<and> byteLength e b > OCR_IMAGE_LIMIT_BYTES"
      "toBlob e canvas quality = Some blob" "byteLength e blob \<le> OCR_IMAGE_LIMIT_BYTES"
      "out = jpegFile e f blob" by blast
    with b False have "q # qs = (q # qa) @ quality # qb \<and>
       (\<forall>q\<in>set (q # qa). \<exists>b. toBlob e canvas q = Some b \<and> byteLength e b > OCR_IMAGE_LIMIT_BYTES) \<and>
       toBlob e canvas quality = Some blob \<and> byteLength e blob \<le> OCR_IMAGE_LIMIT_BYTES \<and>
       out = jpegFile e f blob" by simp
    then show ?thesis by blast
  qed
qed

lemma tryQualities_None:
  "tryQualities e f canvas qs = Inr None \<Longrightarrow>
     \<forall>q\<in>set qs. \<exists>b. toBlob e canvas q = Some b \<and> byteLength e b > OCR_IMAGE_LIMIT_BYTES"
  by (induction qs) (auto simp: canvasToBlob_def split: option.splits if_splits)

text \<open>The outer loop passes the scales at which every quality is over the budget.\<close>

lemma tryScales_skip:
  "\<forall>s\<in>set sa. \<forall>q\<in>set qualities.
      \<exists>b. encoded e img s q = Some b \<and> byteLength e b > OCR_IMAGE_LIMIT_BYTES \<Longrightarrow>
     tryScales e f img (sa @ rest) = tryScales e f img rest"
proof (induction sa)
  case Nil
  then show ?case by simp
next
  case (Cons s sa)
  from qualities_nonempty have "hd qualities \<in> set qualities" by simp
  with Cons.prems obtain b0 where "encoded e img s (hd qualities) = Some b0" by fastforce
  then obtain canvas where cv: "render e img s = Some canvas"
    by (cases "render e img s") (simp_all add: encoded_def)
  with Cons.prems
  have "\<forall>q\<in>set qualities. \<exists>b. toBlob e canvas q = Some b \<and> byteLength e b > OCR_IMAGE_LIMIT_BYTES"
    by (simp add: encoded_def)
  from tryQualities_none [OF this] have "tryQualities e f canvas qualities = Inr None" .
  with cv Cons show ?case by simp
qed

lemma tryScales_first:
  assumes "List.product ss qualities = before @ (scale, quality) # after"
    and "\<forall>(s, q)\<in>set before. \<exists>b. encoded e img s q = Some b \<and> byteLength e b > OCR_IMAGE_LIMIT_BYTES"
    and "encoded e img scale quality = Some blob"
    and "byteLength e blob \<le> OCR_IMAGE_LIMIT_BYTES"
  shows "tryScales e f img ss = Inr (jpegFile e f blob)"
proof -
  from product_split [OF assms(1)] obtain sa sb qa qb where
    d: "ss = sa @ scale # sb" "qualities = qa @ quality # qb"
    "before = List.product sa qualities @ map (Pair scale) qa" by blast
  have skip: "\<forall>s\<in>set sa. \<forall>q\<in>set qualities.
      \<exists>b. encoded e img s q = Some b \<and> byteLength e b > OCR_IMAGE_LIMIT_BYTES"
  proof (intro ballI)
    fix s q assume "s \<in> set sa" "q \<in> set qualities"
    then have "(s, q) \<in> set before" by (simp add: d(3))
    with assms(2) show "\<exists>b. encoded e img s q = Some b \<and> byteLength e b > OCR_IMAGE_LIMIT_BYTES"
      by fastforce
  qed
  have same: "\<forall>q\<in>set qa. \<exists>b. encoded e img scale q = Some b \<and> byteLength e b > OCR_IMAGE_LIMIT_BYTES"
  proof
    fix q assume "q \<in> set qa"
    then have "(scale, q) \<in> set before" by (simp add: d(3))
    with assms(2) show "\<exists>b. encoded e img scale q = Some b \<and> byteLength e b > OCR_IMAGE_LIMIT_BYTES"
      by fastforce
  qed
  from assms(3) obtain canvas where cv: "render e img scale = Some canvas"
    and tb: "toBlob e canvas quality = Some blob"
    by (cases "render e img scale") (simp_all add: encoded_def)
  from same cv
  have "\<forall>q\<in>set qa. \<exists>b. toBlob e canvas q = Some b \<and> byteLength e b > OCR_IMAGE_LIMIT_BYTES"
    by (simp add: encoded_def)
  from tryQualities_first [OF this tb assms(4), of f qb] d(2)
  have "tryQualities e f canvas qualities = Inr (Some (jpegFile e f blob))" by simp
  with cv have "tryScales e f img (scale # sb) = Inr (jpegFile e f blob)" by simp
  with tryScales_skip [OF skip, of f "scale # sb"] d(1) show ?thesis by simp
qed

lemma tryScales_exhausted:
  assumes "\<forall>(s, q)\<in>set (List.product ss qualities).
             \<exists>b. encoded e img s q = Some b \<and> byteLength e b > OCR_IMAGE_LIMIT_BYTES"
  shows "tryScales e f img ss =
           Inl (Error ''Image is still too large after compression. Please resize it manually and try again.'')"
proof -
  from assms have "\<forall>s\<in>set ss. \<forall>q\<in>set qualities.
      \<exists>b. encoded e img s q = Some b \<and> byteLength e b > OCR_IMAGE_LIMIT_BYTES" by auto
  from tryScales_skip [OF this, of f "[]"] show ?thesis by simp
qed

lemma tryScales_Inr:
  "tryScales e f img ss = Inr out \<Longrightarrow>
     \<exists>before scale quality after blob.
       List.product ss qualities = before @ (scale, quality) # after \<and>
       (\<forall>(s, q)\<in>set before. \<exists>b. encoded e img s q = Some b \<and> byteLength e b > OCR_IMAGE_LIMIT_BYTES) \<and>
       encoded e img scale quality = Some blob \<and> byteLength e blob \<le> OCR_IMAGE_LIMIT_BYTES \<and>
       out = jpegFile e f blob"
proof (induction ss)
  case Nil
  then show ?case by simp
next
  case (Cons s ss)
  from Cons.prems obtain canvas where cv: "render e img s = Some canvas"
    by (cases "render e img s") simp_all
  show ?case
  proof (cases "tryQualities e f canvas qualities")
    case (Inl x)
    with Cons.prems cv show ?thesis by simp
  next
    case (Inr r)
    show ?thesis
    proof (cases r)
      case (Some o1)
      with Inr Cons.prems cv have o1: "o1 = out" by simp
      from tryQualities_Some [OF Inr [unfolded Some o1]] obtain qa quality qb blob where
        d: "qualities = qa @ quality # qb"
        "\<forall>q\<in>set qa. \<exists>b. toBlob e canvas q = Some b \<and> byteLength e b > OCR_IMAGE_LIMIT_BYTES"
        "toBlob e canvas quality = Some blob" "byteLength e blob \<le> OCR_IMAGE_LIMIT_BYTES"
        "out = jpegFile e f blob" by blast
      from arg_cong [OF d(1), of "map (Pair s)"]
      have "List.product (s # ss) qualities =
              map (Pair s) qa @ (s, quality) # (map (Pair s) qb @ List.product ss qualities)"
        by simp
      moreover from d(2) cv
      have "\<forall>(s, q)\<in>set (map (Pair s) qa).
              \<exists>b. encoded e img s q = Some b \<and> byteLength e b > OCR_IMAGE_LIMIT_BYTES"
        by (auto simp: encoded_def)
      moreover from d(3) cv have "encoded e img s quality = Some blob"
        by (simp add: encoded_def)
      ultimately show ?thesis using d(4,5) by blast
    next
      case None
      with Inr Cons.prems cv have rec: "tryScales e f img ss = Inr out" by simp
      from Cons.IH [OF rec] obtain before scale quality after blob where
        d: "List.product ss qualities = before @ (scale, quality) # after"
        "\<forall>(s, q)\<in>set before. \<exists>b. encoded e img s q = Some b \<and> byteLength e b > OCR_IMAGE_LIMIT_BYTES"
        "encoded e img scale quality = Some blob" "byteLength e blob \<le> OCR_IMAGE_LIMIT_BYTES"
        "out = jpegFile e f blob" by blast
      from tryQualities_None [OF Inr [unfolded None]] cv
      have "\<forall>(s, q)\<in>set (map (Pair s) qualities).
              \<exists>b. encoded e img s q = Some b \<and> byteLength e b > OCR_IMAGE_LIMIT_BYTES"
        by (auto simp: encoded_def)
      with d(2)
      have "\<forall>(s, q)\<in>set (map (Pair s) qualities @ before).
              \<exists>b. encoded e img s q = Some b \<and> byteLength e b > OCR_IMAGE_LIMIT_BYTES"
        by auto
      moreover from d(1) have "List.product (s # ss) qualities =
              (map (Pair s) qualities @ before) @ (scale, quality) # after" by simp
      ultimately show ?thesis using d(3,4,5) by blast
    qed
  qed
qed

text \<open>
  C5. For an image over 10 MiB that decodes, the combinations are tried scale by
  scale (1, 0.9, 0.8, 0.7, 0.6) and, within a scale, quality by quality (0.9, 0.8,
  0.7, 0.6, 0.5). When a combination's blob is within the budget and every
  combination before it in that order gave a blob over the budget, the result is the
  JPEG of that blob; every result is of this kind; and when every combination gives a
  blob over the budget the operation fails.
\<close>

theorem compressImageForOcr_first_fit:
  assumes "fsize f > OCR_IMAGE_LIMIT_BYTES" and "loadImageElement e f = Inr img"
  shows "List.product scales qualities =
           [(1, 9 / 10), (1, 8 / 10), (1, 7 / 10), (1, 6 / 10), (1, 5 / 10),
            (9 / 10, 9 / 10), (9 / 10, 8 / 10), (9 / 10, 7 / 10), (9 / 10, 6 / 10), (9 / 10, 5 / 10),
            (8 / 10, 9 / 10), (8 / 10, 8 / 10), (8 / 10, 7 / 10), (8 / 10, 6 / 10), (8 / 10, 5 / 10),
            (7 / 10, 9 / 10), (7 / 10, 8 / 10), (7 / 10, 7 / 10), (7 / 10, 6 / 10), (7 / 10, 5 / 10),
            (6 / 10, 9 / 10), (6 / 10, 8 / 10), (6 / 10, 7 / 10), (6 / 10, 6 / 10), (6 / 10, 5 / 10)] \<and>
         (List.product scales qualities = before @ (scale, quality) # after \<and>
          (\<forall>(s, q)\<in>set before.
              \<exists>b. encoded e img s q = Some b \<and> byteLength e b > OCR_IMAGE_LIMIT_BYTES) \<and>
          encoded e img scale quality = Some blob \<and>
          byteLength e blob \<le> OCR_IMAGE_LIMIT_BYTES \<longrightarrow>
            compressImageForOcr e f = Inr (jpegFile e f blob)) \<and>
         (compressImageForOcr e f = Inr out \<longrightarrow>
            (\<exists>before scale quality after blob.
               List.product scales qualities = before @ (scale, quality) # after \<and>
               (\<forall>(s, q)\<in>set before.
                   \<exists>b. encoded e img s q = Some b \<and> byteLength e b > OCR_IMAGE_LIMIT_BYTES) \<and>
               encoded e img scale quality = Some blob \<and>
               byteLength e blob \<le> OCR_IMAGE_LIMIT_BYTES \<and>
               out = jpegFile e f blob)) \<and>
         ((\<forall>(s, q)\<in>set (List.product scales qualities).
              \<exists>b. encoded e img s q = Some b \<and> byteLength e b > OCR_IMAGE_LIMIT_BYTES) \<longrightarrow>
            compressImageForOcr e f =
              Inl (Error ''Image is still too large after compression. Please resize it manually and try again.''))"
proof -
  from assms have c: "compressImageForOcr e f = tryScales e f img scales"
    by (simp add: compressImageForOcr_def)
  have order: "List.product scales qualities =
           [(1, 9 / 10), (1, 8 / 10), (1, 7 / 10), (1, 6 / 10), (1, 5 / 10),
            (9 / 10, 9 / 10), (9 / 10, 8 / 10), (9 / 10, 7 / 10), (9 / 10, 6 / 10), (9 / 10, 5 / 10),
            (8 / 10, 9 / 10), (8 / 10, 8 / 10), (8 / 10, 7 / 10), (8 / 10, 6 / 10), (8 / 10, 5 / 10),
            (7 / 10, 9 / 10), (7 / 10, 8 / 10), (7 / 10, 7 / 10), (7 / 10, 6 / 10), (7 / 10, 5 / 10),
            (6 / 10, 9 / 10), (6 / 10, 8 / 10), (6 / 10, 7 / 10), (6 / 10, 6 / 10), (6 / 10, 5 / 10)]"
    by (simp add: scales_def qualities_def)
  have first: "List.product scales qualities = before @ (scale, quality) # after \<and>
          (\<forall>(s, q)\<in>set before.
              \<exists>b. encoded e img s q = Some b \<and> byteLength e b > OCR_IMAGE_LIMIT_BYTES) \<and>
          encoded e img scale quality = Some blob \<and>
          byteLength e blob \<le> OCR_IMAGE_LIMIT_BYTES \<longrightarrow>
            compressImageForOcr e f = Inr (jpegFile e f blob)"
  proof
    assume h: "List.product scales qualities = before @ (scale, quality) # after \<and>
          (\<forall>(s, q)\<in>set before.
              \<exists>b. encoded e img s q = Some b \<and> byteLength e b > OCR_IMAGE_LIMIT_BYTES) \<and>
          encoded e img scale quality = Some blob \<and>
          byteLength e blob \<le> OCR_IMAGE_LIMIT_BYTES"
    then have "tryScales e f img scales = Inr (jpegFile e f blob)"
      by (intro tryScales_first [of scales before scale quality after e img blob f]) simp_all
    with c show "compressImageForOcr e f = Inr (jpegFile e f blob)" by simp
  qed
  have only: "compressImageForOcr e f = Inr out \<longrightarrow>
            (\<exists>before scale quality after blob.
               List.product scales qualities = before @ (scale, quality) # after \<and>
               (\<forall>(s, q)\<in>set before.
                   \<exists>b. encoded e img s q = Some b \<and> byteLength e b > OCR_IMAGE_LIMIT_BYTES) \<and>
               encoded e img scale quality = Some blob \<and>
               byteLength e blob \<le> OCR_IMAGE_LIMIT_BYTES \<and>
               out = jpegFile e f blob)"
    using tryScales_Inr [of e f img scales out] c by simp
  have none: "(\<forall>(s, q)\<in>set (List.product scales qualities).
              \<exists>b. encoded e img s q = Some b \<and> byteLength e b > OCR_IMAGE_LIMIT_BYTES) \<longrightarrow>
            compressImageForOcr e f =
              Inl (Error ''Image is still too large after compression. Please resize it manually and try again.'')"
    using tryScales_exhausted [of scales e img f] c by simp
  from order first only none show ?thesis by blast
qed

theorem compressImageForOcr_first_fit_witness:
  "fsize large_image > OCR_IMAGE_LIMIT_BYTES \<and>
   loadImageElement demo_env large_image = Inr (12 * 1024 * 1024) \<and>
   encoded demo_env (12 * 1024 * 1024) (9 / 10) (9 / 10) = Some [12 * 1024 * 1024] \<and>
   encoded demo_env (12 * 1024 * 1024) (9 / 10) (8 / 10) = Some [9 * 1024 * 1024] \<and>
   compressImageForOcr demo_env large_image =
     Inr \<lparr>name = ''scan.v2.jpg'', ftype = ''image/jpeg'', fsize = 9 * 1024 * 1024,
          body = [9 * 1024 * 1024]\<rparr> \<and>
   (\<exists>before scale quality after blob.
      List.product scales qualities = before @ (scale, quality) # after \<and>
      encoded demo_env (12 * 1024 * 1024) scale quality = Some blob \<and>
      byteLength demo_env blob \<le> OCR_IMAGE_LIMIT_BYTES \<and>
      \<lparr>name = ''scan.v2.jpg'', ftype = ''image/jpeg'', fsize = 9 * 1024 * 1024,
       body = [9 * 1024 * 1024]\<rparr> = jpegFile demo_env large_image blob) \<and>
   compressImageForOcr stubborn_env large_image =
     Inl (Error ''Image is still too large after compression. Please resize it manually and try again.'')"
proof -
  have big: "fsize large_image > OCR_IMAGE_LIMIT_BYTES"
    by (simp add: large_image_def OCR_IMAGE_LIMIT_BYTES_def)
  have dec: "loadImageElement demo_env large_image = Inr (12 * 1024 * 1024)"
    by (simp add: loadImageElement_def demo_env_def large_image_def)
  have dec': "loadImageElement stubborn_env large_image = Inr (12 * 1024 * 1024)"
    by (simp add: loadImageElement_def stubborn_env_def demo_env_def large_image_def)
  let ?before = "[(1, 9 / 10), (1, 8 / 10), (1, 7 / 10), (1, 6 / 10), (1, 5 / 10),
                  (9 / 10, 9 / 10 :: rat)] :: (rat \<times> rat) list"
  let ?after = "[(9 / 10, 7 / 10), (9 / 10, 6 / 10), (9 / 10, 5 / 10),
            (8 / 10, 9 / 10), (8 / 10, 8 / 10), (8 / 10, 7 / 10), (8 / 10, 6 / 10), (8 / 10, 5 / 10),
            (7 / 10, 9 / 10), (7 / 10, 8 / 10), (7 / 10, 7 / 10), (7 / 10, 6 / 10), (7 / 10, 5 / 10),
            (6 / 10, 9 / 10), (6 / 10, 8 / 10), (6 / 10, 7 / 10), (6 / 10, 6 / 10),
            (6 / 10, 5 / 10 :: rat)] :: (rat \<times> rat) list"
  note fit = compressImageForOcr_first_fit [OF big dec, where before = "?before"
      and scale = "9 / 10" and quality = "8 / 10" and after = "?after"
      and blob = "[9 * 1024 * 1024]", THEN conjunct2, THEN conjunct1]
  note fail = compressImageForOcr_first_fit [OF big dec', THEN conjunct2, THEN conjunct2,
      THEN conjunct2]
  have order: "List.product scales qualities = ?before @ (9 / 10, 8 / 10) # ?after"
    by (simp add: scales_def qualities_def)
  have over: "\<forall>(s, q)\<in>set ?before.
      \<exists>b. encoded demo_env (12 * 1024 * 1024) s q = Some b \<and>
          byteLength demo_env b > OCR_IMAGE_LIMIT_BYTES"
    by (simp add: encoded_def demo_env_def OCR_IMAGE_LIMIT_BYTES_def)
  have e1: "encoded demo_env (12 * 1024 * 1024) (9 / 10) (9 / 10) = Some [12 * 1024 * 1024]"
    by (simp add: encoded_def demo_env_def)
  have e2: "encoded demo_env (12 * 1024 * 1024) (9 / 10) (8 / 10) = Some [9 * 1024 * 1024]"
    by (simp add: encoded_def demo_env_def)
  have within: "byteLength demo_env [9 * 1024 * 1024] \<le> OCR_IMAGE_LIMIT_BYTES"
    by (simp add: demo_env_def OCR_IMAGE_LIMIT_BYTES_def)
  from fit order over e2 within
  have "compressImageForOcr demo_env large_image =
          Inr (jpegFile demo_env large_image [9 * 1024 * 1024])" by blast
  then have r1: "compressImageForOcr demo_env large_image =
     Inr \<lparr>name = ''scan.v2.jpg'', ftype = ''image/jpeg'', fsize = 9 * 1024 * 1024,
          body = [9 * 1024 * 1024]\<rparr>"
    by (simp add: jpegFile_def demo_env_def large_image_def replaceExtension_def
        stripExtension_def)
  have "\<forall>(s, q)\<in>set (List.product scales qualities).
      \<exists>b. encoded stubborn_env (12 * 1024 * 1024) s q = Some b \<and>
          byteLength stubborn_env b > OCR_IMAGE_LIMIT_BYTES"
    by (simp add: scales_def qualities_def encoded_def stubborn_env_def demo_env_def
        OCR_IMAGE_LIMIT_BYTES_def)
  with fail have r2: "compressImageForOcr stubborn_env large_image =
     Inl (Error ''Image is still too large after compression. Please resize it manually and try again.'')"
    by blast
  from compressImageForOcr_first_fit [OF big dec, THEN conjunct2, THEN conjunct2,
      THEN conjunct1, rule_format, OF r1]
  have r3: "\<exists>before scale quality after blob.
      List.product scales qualities = before @ (scale, quality) # after \<and>
      encoded demo_env (12 * 1024 * 1024) scale quality = Some blob \<and>
      byteLength demo_env blob \<le> OCR_IMAGE_LIMIT_BYTES \<and>
      \<lparr>name = ''scan.v2.jpg'', ftype = ''image/jpeg'', fsize = 9 * 1024 * 1024,
       body = [9 * 1024 * 1024]\<rparr> = jpegFile demo_env large_image blob" by blast
  from big dec e1 e2 r1 r2 r3 show ?thesis by blast
qed

section \<open>The state of the page after a list of actions\<close>

lemma run_Nil: "run s [] = s"
  by (simp add: run_def)

lemma run_Cons: "run s (a # acts) = run (perform s a) acts"
  by (simp add: run_def)

lemma run_append: "run s (xs @ ys) = run (run s xs) ys"
  by (simp add: run_def)

lemma committed_append: "committed (xs @ ys) = committed xs @ committed ys"
  by (induction xs rule: committed.induct) simp_all

lemma reported_append: "reported (xs @ ys) = reported xs @ reported ys"
  by (induction xs rule: reported.induct) simp_all

lemma fetched_append: "fetched (xs @ ys) = fetched xs @ fetched ys"
  by (induction xs rule: fetched.induct) simp_all

lemma st_text_run: "st_text (run s acts) = last (st_text s # committed acts)"
proof (induction acts arbitrary: s)
  case Nil
  show ?case by (simp add: run_Nil)
next
  case (Cons a acts)
  show ?case by (cases a) (simp_all add: run_Cons Cons.IH)
qed

lemma st_error_run: "st_error (run s acts) = last (st_error s # reported acts)"
proof (induction acts arbitrary: s)
  case Nil
  show ?case by (simp add: run_Nil)
next
  case (Cons a acts)
  show ?case by (cases a) (simp_all add: run_Cons Cons.IH)
qed

lemma silent_run: "list_all silent acts \<Longrightarrow> run s acts = s\<lparr>st_statusMessage := st_statusMessage (run s acts)\<rparr>"
proof (induction acts arbitrary: s)
  case Nil
  show ?case by (simp add: run_Nil)
next
  case (Cons a acts)
  from Cons.prems have sa: "silent a" and rest: "list_all silent acts" by simp_all
  from Cons.IH [OF rest, of "perform s a"] sa show ?case
    by (cases a) (simp_all add: run_Cons)
qed

lemma silent_committed: "list_all silent acts \<Longrightarrow> committed acts = []"
  by (induction acts rule: committed.induct) simp_all

lemma silent_reported: "list_all silent acts \<Longrightarrow> reported acts = []"
  by (induction acts rule: reported.induct) simp_all

lemma silent_no_SetFile: "list_all silent acts \<Longrightarrow> SetFile g \<notin> set acts"
  by (induction acts) auto

lemma st_file_run: "\<forall>g. SetFile g \<notin> set acts \<Longrightarrow> st_file (run s acts) = st_file s"
proof (induction acts arbitrary: s)
  case Nil
  show ?case by (simp add: run_Nil)
next
  case (Cons a acts)
  then show ?case by (cases a) (auto simp: run_Cons)
qed

section \<open>The loop over the chunks\<close>

text \<open>
  What the loop does and how it ends: with the fragment of every chunk, after one
  request for each; or with the exception of the first chunk whose submission fails,
  whose request is the last thing it does.
\<close>

lemma submitChunks_shape:
  "submitChunks e n i cs acc = (acts, r) \<Longrightarrow>
     list_all silent acts \<and>
     (case r of
        Inr texts \<Rightarrow>
          fetched acts = cs \<and>
          (\<exists>ts. texts = acc @ ts \<and> length ts = length cs \<and>
                (\<forall>j<length cs. submitFileToOcr e (i + j) (cs ! j) = Inr (ts ! j)))
      | Inl x \<Rightarrow>
          (\<exists>k<length cs.
             submitFileToOcr e (i + k) (cs ! k) = Inl x \<and>
             (\<forall>j<k. \<exists>t. submitFileToOcr e (i + j) (cs ! j) = Inr t) \<and>
             fetched acts = take (Suc k) cs \<and>
             (\<exists>pre. acts = pre @
                [SetStatusMessage (Some (''Processing PDF chunk '' @ show_nat (i + k + 1) @ ''/''
                                         @ show_nat n @ ''...'')),
                 Fetch (cs ! k)])))"
proof (induction cs arbitrary: i acc acts r)
  case Nil
  then show ?case by auto
next
  case (Cons c cs)
  let ?line = "SetStatusMessage (Some (''Processing PDF chunk '' @ show_nat (i + 1) @ ''/''
                                         @ show_nat n @ ''...''))"
  show ?case
  proof (cases "submitFileToOcr e i c")
    case (Inl x)
    with Cons.prems have a: "acts = [?line, Fetch c]" and r: "r = Inl x" by simp_all
    have "0 < length (c # cs) \<and>
             submitFileToOcr e (i + 0) ((c # cs) ! 0) = Inl x \<and>
             (\<forall>j<0. \<exists>t. submitFileToOcr e (i + j) ((c # cs) ! j) = Inr t) \<and>
             fetched acts = take (Suc 0) (c # cs) \<and>
             (\<exists>pre. acts = pre @
                [SetStatusMessage (Some (''Processing PDF chunk '' @ show_nat (i + 0 + 1) @ ''/''
                                         @ show_nat n @ ''...'')),
                 Fetch ((c # cs) ! 0)])"
      using Inl a by simp
    then have "\<exists>k<length (c # cs).
             submitFileToOcr e (i + k) ((c # cs) ! k) = Inl x \<and>
             (\<forall>j<k. \<exists>t. submitFileToOcr e (i + j) ((c # cs) ! j) = Inr t) \<and>
             fetched acts = take (Suc k) (c # cs) \<and>
             (\<exists>pre. acts = pre @
                [SetStatusMessage (Some (''Processing PDF chunk '' @ show_nat (i + k + 1) @ ''/''
                                         @ show_nat n @ ''...'')),
                 Fetch ((c # cs) ! k)])" by blast
    with a r show ?thesis by simp
  next
    case (Inr t)
    obtain acts' r' where rec: "submitChunks e n (i + 1) cs (acc @ [t]) = (acts', r')"
      by (cases "submitChunks e n (i + 1) cs (acc @ [t])")
    with Inr Cons.prems
    have a: "acts = [?line, Fetch c] @ (if i < n - 1 then [Sleep 250] else []) @ acts'"
      and r: "r = r'" by simp_all
    from Cons.IH [OF rec] have sil': "list_all silent acts'" by simp
    with a have sil: "list_all silent acts" by simp
    have fa: "fetched acts = c # fetched acts'" by (simp add: a fetched_append)
    show ?thesis
    proof (cases r')
      case texts: (Inr texts)
      with Cons.IH [OF rec] obtain ts where
        f': "fetched acts' = cs" and ts: "texts = (acc @ [t]) @ ts" "length ts = length cs"
        "\<forall>j<length cs. submitFileToOcr e (i + 1 + j) (cs ! j) = Inr (ts ! j)" by auto
      have each: "\<forall>j<length (c # cs). submitFileToOcr e (i + j) ((c # cs) ! j) = Inr ((t # ts) ! j)"
      proof (intro allI impI)
        fix j assume j: "j < length (c # cs)"
        show "submitFileToOcr e (i + j) ((c # cs) ! j) = Inr ((t # ts) ! j)"
        proof (cases j)
          case 0
          with Inr show ?thesis by simp
        next
          case (Suc j')
          with j ts(3) show ?thesis by simp
        qed
      qed
      from ts have "texts = acc @ (t # ts) \<and> length (t # ts) = length (c # cs)" by simp
      with each have "\<exists>ts. texts = acc @ ts \<and> length ts = length (c # cs) \<and>
                (\<forall>j<length (c # cs). submitFileToOcr e (i + j) ((c # cs) ! j) = Inr (ts ! j))"
        by blast
      with sil fa f' r texts show ?thesis by simp
    next
      case x: (Inl x)
      with Cons.IH [OF rec] obtain k pre where
        k: "k < length cs" "submitFileToOcr e (i + 1 + k) (cs ! k) = Inl x"
        "\<forall>j<k. \<exists>t. submitFileToOcr e (i + 1 + j) (cs ! j) = Inr t"
        "fetched acts' = take (Suc k) cs"
        "acts' = pre @
                [SetStatusMessage (Some (''Processing PDF chunk '' @ show_nat (i + 1 + k + 1) @ ''/''
                                         @ show_nat n @ ''...'')),
                 Fetch (cs ! k)]" by auto
      have before: "\<forall>j<Suc k. \<exists>t. submitFileToOcr e (i + j) ((c # cs) ! j) = Inr t"
      proof (intro allI impI)
        fix j assume j: "j < Suc k"
        show "\<exists>t. submitFileToOcr e (i + j) ((c # cs) ! j) = Inr t"
        proof (cases j)
          case 0
          with Inr show ?thesis by simp
        next
          case (Suc j')
          with j k(3) show ?thesis by simp
        qed
      qed
      from a k(5) have "acts = ([?line, Fetch c] @ (if i < n - 1 then [Sleep 250] else []) @ pre) @
                [SetStatusMessage (Some (''Processing PDF chunk '' @ show_nat (i + Suc k + 1) @ ''/''
                                         @ show_nat n @ ''...'')),
                 Fetch ((c # cs) ! Suc k)]" by simp
      then have "\<exists>pre. acts = pre @
                [SetStatusMessage (Some (''Processing PDF chunk '' @ show_nat (i + Suc k + 1) @ ''/''
                                         @ show_nat n @ ''...'')),
                 Fetch ((c # cs) ! Suc k)]" by blast
      with k(1,2,4) before fa
      have "Suc k < length (c # cs) \<and>
             submitFileToOcr e (i + Suc k) ((c # cs) ! Suc k) = Inl x \<and>
             (\<forall>j<Suc k. \<exists>t. submitFileToOcr e (i + j) ((c # cs) ! j) = Inr t) \<and>
             fetched acts = take (Suc (Suc k)) (c # cs) \<and>
             (\<exists>pre. acts = pre @
                [SetStatusMessage (Some (''Processing PDF chunk '' @ show_nat (i + Suc k + 1) @ ''/''
                                         @ show_nat n @ ''...'')),
                 Fetch ((c # cs) ! Suc k)])" by simp
      then have "\<exists>k<length (c # cs).
             submitFileToOcr e (i + k) ((c # cs) ! k) = Inl x \<and>
             (\<forall>j<k. \<exists>t. submitFileToOcr e (i + j) ((c # cs) ! j) = Inr t) \<and>
             fetched acts = take (Suc k) (c # cs) \<and>
             (\<exists>pre. acts = pre @
                [SetStatusMessage (Some (''Processing PDF chunk '' @ show_nat (i + k + 1) @ ''/''
                                         @ show_nat n @ ''...'')),
                 Fetch ((c # cs) ! k)])" by blast
      with sil r x show ?thesis by simp
    qed
  qed
qed

section \<open>Properties of the orchestrator\<close>

lemma pdf_is_no_image: "\<not> startsWith ''application/pdf'' ''image/''"
  by (simp add: startsWith_def)

text \<open>A PDF that is split is handed to the split-and-submit part.\<close>

lemma tryBlock_split:
  assumes "ftype f = ''application/pdf''"
    and "fsize f > OCR_PDF_LIMIT_BYTES \<or> pageCount > OCR_PDF_PAGE_LIMIT"
    and "splitPdfForOcr e f = Some (Inr (chunks, pageCount))"
  shows "tryBlock e f = splitAndSubmit e f"
proof -
  from split_ranges [OF assms(3)] obtain source where
    "load e (body f) = Inr source" "pageCount = length source" by blast
  with assms(1,2) pdf_is_no_image show ?thesis
    by (auto simp: tryBlock_def)
qed

lemma processOCR_split:
  assumes "ftype f = ''application/pdf''"
    and "fsize f > OCR_PDF_LIMIT_BYTES \<or> pageCount > OCR_PDF_PAGE_LIMIT"
    and "splitPdfForOcr e f = Some (Inr (chunks, pageCount))"
    and "submitChunks e (length chunks) 0 chunks [] = (acts, r)"
  shows "processOCR e (Some f) =
     Some (([SetIsProcessing True, SetStatusMessage (Some ''Preparing file...''), SetError None,
             SetStatusMessage (Some ''Splitting PDF into OCR-safe chunks...'')]
            @ (if pageCount > OCR_PDF_PAGE_LIMIT
               then [SetStatusMessage (Some (''PDF has '' @ show_nat pageCount
                       @ '' pages. Processing '' @ show_nat (length chunks) @ '' chunks...''))]
               else [])
            @ acts)
           @ (case r of Inl x \<Rightarrow> [SetError (Some (message x))]
              | Inr chunkTexts \<Rightarrow> [SetText (mergeTexts chunkTexts)])
           @ [SetIsProcessing False, SetStatusMessage None])"
  using tryBlock_split [OF assms(1,2,3)] assms(3,4)
  by (cases r) (simp_all add: processOCR_def splitAndSubmit_def)

lemma processOCR_split_prefix:
  assumes "list_all silent acts"
  shows "committed ([SetIsProcessing True, SetStatusMessage (Some ''Preparing file...''), SetError None,
             SetStatusMessage (Some ''Splitting PDF into OCR-safe chunks...'')]
            @ (if (b::bool) then [SetStatusMessage m] else [])
            @ acts) = [] \<and>
         reported ([SetIsProcessing True, SetStatusMessage (Some ''Preparing file...''), SetError None,
             SetStatusMessage (Some ''Splitting PDF into OCR-safe chunks...'')]
            @ (if b then [SetStatusMessage m] else [])
            @ acts) = [None] \<and>
         fetched ([SetIsProcessing True, SetStatusMessage (Some ''Preparing file...''), SetError None,
             SetStatusMessage (Some ''Splitting PDF into OCR-safe chunks...'')]
            @ (if b then [SetStatusMessage m] else [])
            @ acts) = fetched acts"
  using silent_committed [OF assms] silent_reported [OF assms]
  by (simp add: committed_append reported_append fetched_append)

text \<open>How the loop ends when every chunk is accepted by the boundary.\<close>

lemma submitChunks_all:
  assumes "length texts = length chunks"
    and "\<forall>i<length chunks. submitFileToOcr e i (chunks ! i) = Inr (texts ! i)"
  shows "\<exists>acts. submitChunks e n 0 chunks [] = (acts, Inr texts) \<and>
           list_all silent acts \<and> fetched acts = chunks"
proof -
  obtain acts r where sc: "submitChunks e n 0 chunks [] = (acts, r)"
    by (cases "submitChunks e n 0 chunks []")
  from submitChunks_shape [OF sc] have sil: "list_all silent acts" by simp
  show ?thesis
  proof (cases r)
    case (Inl x)
    with submitChunks_shape [OF sc] obtain k where
      "k < length chunks" "submitFileToOcr e (0 + k) (chunks ! k) = Inl x" by auto
    with assms(2) show ?thesis by simp
  next
    case (Inr out)
    with submitChunks_shape [OF sc] obtain ts where
      f: "fetched acts = chunks" and ts: "out = [] @ ts" "length ts = length chunks"
      "\<forall>j<length chunks. submitFileToOcr e (0 + j) (chunks ! j) = Inr (ts ! j)" by auto
    have "ts = texts"
    proof (rule nth_equalityI)
      from ts(2) assms(1) show "length ts = length texts" by simp
    next
      fix i assume "i < length ts"
      with ts(2) have i: "i < length chunks" by simp
      with ts(3) assms(2) have "Inr (ts ! i) = (Inr (texts ! i) :: exn + string)" by simp
      then show "ts ! i = texts ! i" by simp
    qed
    with ts(1) sc Inr sil f show ?thesis by simp
  qed
qed

text \<open>How the loop ends when chunk \<open>k\<close> (from 0) is the first that fails.\<close>

lemma submitChunks_fails:
  assumes "k < length chunks"
    and "\<forall>i<k. \<exists>t. submitFileToOcr e i (chunks ! i) = Inr t"
    and "submitFileToOcr e k (chunks ! k) = Inl x"
  shows "\<exists>pre. submitChunks e n 0 chunks [] =
           (pre @ [SetStatusMessage (Some (''Processing PDF chunk '' @ show_nat (k + 1) @ ''/''
                                           @ show_nat n @ ''...'')),
                   Fetch (chunks ! k)], Inl x) \<and>
           list_all silent pre \<and> fetched pre = take k chunks"
proof -
  obtain acts r where sc: "submitChunks e n 0 chunks [] = (acts, r)"
    by (cases "submitChunks e n 0 chunks []")
  from submitChunks_shape [OF sc] have sil: "list_all silent acts" by simp
  show ?thesis
  proof (cases r)
    case (Inr out)
    with submitChunks_shape [OF sc] obtain ts where
      "\<forall>j<length chunks. submitFileToOcr e (0 + j) (chunks ! j) = Inr (ts ! j)" by auto
    with assms(1,3) show ?thesis by simp
  next
    case (Inl y)
    with submitChunks_shape [OF sc] obtain k' pre where
      k': "k' < length chunks" "submitFileToOcr e (0 + k') (chunks ! k') = Inl y"
      "\<forall>j<k'. \<exists>t. submitFileToOcr e (0 + j) (chunks ! j) = Inr t"
      "fetched acts = take (Suc k') chunks"
      "acts = pre @ [SetStatusMessage (Some (''Processing PDF chunk '' @ show_nat (0 + k' + 1) @ ''/''
                                           @ show_nat n @ ''...'')),
                   Fetch (chunks ! k')]" by auto
    have "k' = k"
    proof (rule ccontr)
      assume "k' \<noteq> k"
      then consider "k' < k" | "k < k'" by arith
      then show False
      proof cases
        case 1
        with assms(2) k'(2) show False by auto
      next
        case 2
        with k'(3) assms(3) show False by auto
      qed
    qed
    with k'(2) assms(3) have yx: "y = x" by simp
    from sil k'(5) have silp: "list_all silent pre" by simp
    from k'(4,5) \<open>k' = k\<close> assms(1) have "fetched pre @ [chunks ! k] = take (Suc k) chunks"
      by (simp add: fetched_append)
    with assms(1) have "fetched pre = take k chunks"
      by (simp add: take_Suc_conv_app_nth)
    with sc Inl yx k'(5) \<open>k' = k\<close> silp show ?thesis by simp
  qed
qed

text \<open>The submitter reads nothing of the platform but the response, the JSON reader
  and the string conversion.\<close>

lemma submitFileToOcr_cong:
  assumes "fetch e' n' c' = fetch e n c" and "parse e' = parse e"
    and "stringify e' = stringify e"
  shows "submitFileToOcr e' n' c' = submitFileToOcr e n c"
proof -
  have t: "toStr e' = toStr e"
    unfolding toStr_def assms(3) by (rule refl)
  show ?thesis
    unfolding submitFileToOcr_def assms(1) assms(2) t by (rule refl)
qed

section \<open>Runs on concrete files\<close>

lemma book_split:
  "splitPdfForOcr demo_env book_pdf = Some (Inr ([book_part1, book_part2, book_part3], 3))"
  by (simp add: splitPdfForOcr_def splitPdfRanges_def splitLoop.simps shrinkChunk.simps
      createPdfChunk_def copyPages_def demo_env_def book_pdf_def book_part1_def book_part2_def
      book_part3_def replaceExtension_def stripExtension_def show_nat.simps upt_rec
      PDF_CHUNK_MAX_PAGES_def PDF_CHUNK_TARGET_BYTES_def OCR_PDF_LIMIT_BYTES_def)

lemma book_split_failing:
  "splitPdfForOcr failing_env book_pdf = Some (Inr ([book_part1, book_part2, book_part3], 3))"
  by (simp add: splitPdfForOcr_def splitPdfRanges_def splitLoop.simps shrinkChunk.simps
      createPdfChunk_def copyPages_def failing_env_def demo_env_def book_pdf_def book_part1_def
      book_part2_def book_part3_def replaceExtension_def stripExtension_def show_nat.simps upt_rec
      PDF_CHUNK_MAX_PAGES_def PDF_CHUNK_TARGET_BYTES_def OCR_PDF_LIMIT_BYTES_def)

lemma demo_submit:
  "submitFileToOcr demo_env n c =
     Inr (if n = 1 then [] else if name c = ''receipt.png'' then ''other'' else ''page'')"
  by (simp add: submitFileToOcr_def demo_env_def startsWith_def ok_def orElse_def toStr_def)

lemma failing_submit:
  "submitFileToOcr failing_env n c =
     (if n = 1 then Inl (Error ''Internal server error (HTTP 500)'') else Inr ''page'')"
  by (simp add: submitFileToOcr_def failing_env_def demo_env_def startsWith_def ok_def
      orElse_def toStr_def show_nat.simps)

lemma book_run_eval: "processOCR demo_env (Some book_pdf) = Some book_run"
proof -
  have t: "ftype book_pdf = ''application/pdf''" "fsize book_pdf > OCR_PDF_LIMIT_BYTES"
    by (simp_all add: book_pdf_def OCR_PDF_LIMIT_BYTES_def)
  have sc: "submitChunks demo_env (length [book_part1, book_part2, book_part3]) 0
              [book_part1, book_part2, book_part3] [] =
            ([SetStatusMessage (Some ''Processing PDF chunk 1/3...''), Fetch book_part1, Sleep 250,
              SetStatusMessage (Some ''Processing PDF chunk 2/3...''), Fetch book_part2, Sleep 250,
              SetStatusMessage (Some ''Processing PDF chunk 3/3...''), Fetch book_part3],
             Inr [''page'', [], ''page''])"
    by (simp add: demo_submit show_nat.simps book_part1_def book_part2_def book_part3_def)
  from processOCR_split [OF t(1) disjI1 [OF t(2)] book_split sc]
  show ?thesis
    by (simp add: book_run_def mergeTexts_def separator_def OCR_PDF_PAGE_LIMIT_def)
qed

lemma book_failed_run_eval: "processOCR failing_env (Some book_pdf) = Some book_failed_run"
proof -
  have t: "ftype book_pdf = ''application/pdf''" "fsize book_pdf > OCR_PDF_LIMIT_BYTES"
    by (simp_all add: book_pdf_def OCR_PDF_LIMIT_BYTES_def)
  have sc: "submitChunks failing_env (length [book_part1, book_part2, book_part3]) 0
              [book_part1, book_part2, book_part3] [] =
            ([SetStatusMessage (Some ''Processing PDF chunk 1/3...''), Fetch book_part1, Sleep 250,
              SetStatusMessage (Some ''Processing PDF chunk 2/3...''), Fetch book_part2],
             Inl (Error ''Internal server error (HTTP 500)''))"
    by (simp add: failing_submit show_nat.simps)
  from processOCR_split [OF t(1) disjI1 [OF t(2)] book_split_failing sc]
  show ?thesis
    by (simp add: book_failed_run_def OCR_PDF_PAGE_LIMIT_def)
qed

section \<open>The fast path\<close>

text \<open>
  C8. A PDF of at most 50 MiB that loads with at most 100 pages is sent as it is, in
  one request and no more; the serialiser has no part in the run.
\<close>

theorem pdf_fast_path:
  assumes "ftype f = ''application/pdf''"
    and "fsize f \<le> OCR_PDF_LIMIT_BYTES"
    and "load e (body f) = Inr pdfDoc"
    and "length pdfDoc \<le> OCR_PDF_PAGE_LIMIT"
  shows "\<exists>acts. processOCR e (Some f) = Some acts \<and>
           acts = [SetIsProcessing True, SetStatusMessage (Some ''Preparing file...''),
                   SetError None, SetStatusMessage (Some ''Processing PDF...''), Fetch f]
                  @ (case submitFileToOcr e 0 f of
                       Inl x \<Rightarrow> [SetError (Some (message x))]
                     | Inr t \<Rightarrow> [SetText t])
                  @ [SetIsProcessing False, SetStatusMessage None] \<and>
           fetched acts = [f] \<and>
           processOCR (e\<lparr>save := sv\<rparr>) (Some f) = Some acts"
proof -
  have same: "submitFileToOcr (e\<lparr>save := sv\<rparr>) 0 f = submitFileToOcr e 0 f"
    by (rule submitFileToOcr_cong) simp_all
  show ?thesis
  proof (cases "submitFileToOcr e 0 f")
    case (Inl x)
    with assms pdf_is_no_image same show ?thesis
      by (simp add: processOCR_def tryBlock_def submitWhole_def)
  next
    case (Inr t)
    with assms pdf_is_no_image same show ?thesis
      by (simp add: processOCR_def tryBlock_def submitWhole_def)
  qed
qed

theorem pdf_fast_path_witness:
  "ftype small_pdf = ''application/pdf'' \<and> fsize small_pdf \<le> OCR_PDF_LIMIT_BYTES \<and>
   load demo_env (body small_pdf) = Inr [1024 * 1024, 2 * 1024 * 1024] \<and>
   length [1024 * 1024, 2 * 1024 * 1024 :: nat] \<le> OCR_PDF_PAGE_LIMIT \<and>
   processOCR demo_env (Some small_pdf) =
     Some [SetIsProcessing True, SetStatusMessage (Some ''Preparing file...''), SetError None,
           SetStatusMessage (Some ''Processing PDF...''), Fetch small_pdf, SetText ''page'',
           SetIsProcessing False, SetStatusMessage None]"
proof -
  have h: "ftype small_pdf = ''application/pdf''" "fsize small_pdf \<le> OCR_PDF_LIMIT_BYTES"
    "load demo_env (body small_pdf) = Inr [1024 * 1024, 2 * 1024 * 1024]"
    "length [1024 * 1024, 2 * 1024 * 1024 :: nat] \<le> OCR_PDF_PAGE_LIMIT"
    by (simp_all add: small_pdf_def demo_env_def OCR_PDF_LIMIT_BYTES_def OCR_PDF_PAGE_LIMIT_def)
  have "submitFileToOcr demo_env 0 small_pdf = Inr ''page''"
    by (simp add: demo_submit small_pdf_def)
  with pdf_fast_path [OF h] h show ?thesis by auto
qed

section \<open>The merge\<close>

lemma committed_member: "t \<in> set (committed acts) \<longleftrightarrow> SetText t \<in> set acts"
  by (induction acts rule: committed.induct) auto

text \<open>
  C7. For a PDF that is split: when the boundary accepts every chunk, the run sends
  the chunks in part order, then commits one text, the non-empty fragments in chunk
  order joined by a blank line, and nothing before it; and a run commits a text only
  if every chunk was accepted, and then it is that text.
\<close>

theorem merge_in_chunk_order:
  assumes "ftype f = ''application/pdf''"
    and "fsize f > OCR_PDF_LIMIT_BYTES \<or> pageCount > OCR_PDF_PAGE_LIMIT"
    and "splitPdfForOcr e f = Some (Inr (chunks, pageCount))"
  shows "(length texts = length chunks \<and>
          (\<forall>i<length chunks. submitFileToOcr e i (chunks ! i) = Inr (texts ! i)) \<longrightarrow>
            (\<exists>pre. processOCR e (Some f) =
                     Some (pre @ [SetText (mergeTexts texts), SetIsProcessing False,
                                  SetStatusMessage None]) \<and>
                   fetched pre = chunks \<and> committed pre = [] \<and> reported pre = [None])) \<and>
         (processOCR e (Some f) = Some acts \<and> SetText t \<in> set acts \<longrightarrow>
            (\<exists>texts. length texts = length chunks \<and>
               (\<forall>i<length chunks. submitFileToOcr e i (chunks ! i) = Inr (texts ! i)) \<and>
               t = mergeTexts texts)) \<and>
         mergeTexts texts = join [CHR 0x0A, CHR 0x0A] (filter (\<lambda>t. t \<noteq> []) texts)"
proof (intro conjI impI)
  assume h: "length texts = length chunks \<and>
          (\<forall>i<length chunks. submitFileToOcr e i (chunks ! i) = Inr (texts ! i))"
  then have len: "length texts = length chunks"
    and all: "\<forall>i<length chunks. submitFileToOcr e i (chunks ! i) = Inr (texts ! i)" by blast+
  from submitChunks_all [OF len all, of "length chunks"] obtain sub where
    sc: "submitChunks e (length chunks) 0 chunks [] = (sub, Inr texts)"
    and sil: "list_all silent sub" and f: "fetched sub = chunks" by blast
  let ?pre = "[SetIsProcessing True, SetStatusMessage (Some ''Preparing file...''), SetError None,
             SetStatusMessage (Some ''Splitting PDF into OCR-safe chunks...'')]
            @ (if pageCount > OCR_PDF_PAGE_LIMIT
               then [SetStatusMessage (Some (''PDF has '' @ show_nat pageCount
                       @ '' pages. Processing '' @ show_nat (length chunks) @ '' chunks...''))]
               else [])
            @ sub"
  from processOCR_split [OF assms sc]
  have "processOCR e (Some f) =
          Some (?pre @ [SetText (mergeTexts texts), SetIsProcessing False, SetStatusMessage None])"
    by simp
  moreover from processOCR_split_prefix [OF sil] f
  have "fetched ?pre = chunks \<and> committed ?pre = [] \<and> reported ?pre = [None]" by simp
  ultimately show "\<exists>pre. processOCR e (Some f) =
                     Some (pre @ [SetText (mergeTexts texts), SetIsProcessing False,
                                  SetStatusMessage None]) \<and>
                   fetched pre = chunks \<and> committed pre = [] \<and> reported pre = [None]"
    by blast
next
  assume h: "processOCR e (Some f) = Some acts \<and> SetText t \<in> set acts"
  obtain sub r where sc: "submitChunks e (length chunks) 0 chunks [] = (sub, r)"
    by (cases "submitChunks e (length chunks) 0 chunks []")
  from submitChunks_shape [OF sc] have sil: "list_all silent sub" by simp
  let ?pre = "[SetIsProcessing True, SetStatusMessage (Some ''Preparing file...''), SetError None,
             SetStatusMessage (Some ''Splitting PDF into OCR-safe chunks...'')]
            @ (if pageCount > OCR_PDF_PAGE_LIMIT
               then [SetStatusMessage (Some (''PDF has '' @ show_nat pageCount
                       @ '' pages. Processing '' @ show_nat (length chunks) @ '' chunks...''))]
               else [])
            @ sub"
  from processOCR_split_prefix [OF sil] have cp: "committed ?pre = []" by simp
  from h have tc: "t \<in> set (committed acts)" by (simp add: committed_member)
  from h processOCR_split [OF assms sc] obtain fin where
    acts: "acts = ?pre @ fin @ [SetIsProcessing False, SetStatusMessage None]"
    and fin: "fin = (case r of Inl x \<Rightarrow> [SetError (Some (message x))]
              | Inr chunkTexts \<Rightarrow> [SetText (mergeTexts chunkTexts)])" by simp
  from acts have "committed acts = committed ?pre @ committed fin"
    by (simp only: committed_append) simp
  with tc cp have tin: "t \<in> set (committed fin)" by simp
  show "\<exists>texts. length texts = length chunks \<and>
               (\<forall>i<length chunks. submitFileToOcr e i (chunks ! i) = Inr (texts ! i)) \<and>
               t = mergeTexts texts"
  proof (cases r)
    case (Inl x)
    with tin fin show ?thesis by simp
  next
    case (Inr out)
    with tin fin have t: "t = mergeTexts out" by simp
    from submitChunks_shape [OF sc] Inr obtain ts where
      "out = [] @ ts" "length ts = length chunks"
      "\<forall>j<length chunks. submitFileToOcr e (0 + j) (chunks ! j) = Inr (ts ! j)" by auto
    with t show ?thesis by auto
  qed
next
  show "mergeTexts texts = join [CHR 0x0A, CHR 0x0A] (filter (\<lambda>t. t \<noteq> []) texts)"
    by (simp add: mergeTexts_def separator_def)
qed

theorem merge_in_chunk_order_witness:
  "ftype book_pdf = ''application/pdf'' \<and> fsize book_pdf > OCR_PDF_LIMIT_BYTES \<and>
   splitPdfForOcr demo_env book_pdf = Some (Inr ([book_part1, book_part2, book_part3], 3)) \<and>
   submitFileToOcr demo_env 0 book_part1 = Inr ''page'' \<and>
   submitFileToOcr demo_env 1 book_part2 = Inr [] \<and>
   submitFileToOcr demo_env 2 book_part3 = Inr ''page'' \<and>
   processOCR demo_env (Some book_pdf) = Some book_run \<and>
   SetText (''page'' @ [CHR 0x0A, CHR 0x0A] @ ''page'') \<in> set book_run \<and>
   mergeTexts [''page'', [], ''page''] = ''page'' @ [CHR 0x0A, CHR 0x0A] @ ''page'' \<and>
   (\<exists>pre. book_run = pre @ [SetText (mergeTexts [''page'', [], ''page'']), SetIsProcessing False,
                            SetStatusMessage None] \<and>
          fetched pre = [book_part1, book_part2, book_part3] \<and> committed pre = []) \<and>
   (\<exists>texts. length texts = 3 \<and> ''page'' @ [CHR 0x0A, CHR 0x0A] @ ''page'' = mergeTexts texts)"
proof -
  have t: "ftype book_pdf = ''application/pdf''" "fsize book_pdf > OCR_PDF_LIMIT_BYTES"
    by (simp_all add: book_pdf_def OCR_PDF_LIMIT_BYTES_def)
  note inst = merge_in_chunk_order [OF t(1) disjI1 [OF t(2)] book_split,
      where texts = "[''page'', [], ''page'']" and acts = book_run
      and t = "''page'' @ [CHR 0x0A, CHR 0x0A] @ ''page''"]
  have sub: "submitFileToOcr demo_env 0 book_part1 = Inr ''page''"
    "submitFileToOcr demo_env 1 book_part2 = Inr []"
    "submitFileToOcr demo_env 2 book_part3 = Inr ''page''"
    by (simp_all add: demo_submit book_part1_def book_part3_def)
  have all: "length [''page'', [], ''page''] = length [book_part1, book_part2, book_part3] \<and>
     (\<forall>i<length [book_part1, book_part2, book_part3].
         submitFileToOcr demo_env i ([book_part1, book_part2, book_part3] ! i)
           = Inr ([''page'', [], ''page''] ! i))"
    using sub by (auto simp: less_Suc_eq numeral_2_eq_2)
  have mem: "SetText (''page'' @ [CHR 0x0A, CHR 0x0A] @ ''page'') \<in> set book_run"
    by (simp add: book_run_def)
  have mt: "mergeTexts [''page'', [], ''page''] = ''page'' @ [CHR 0x0A, CHR 0x0A] @ ''page''"
    by (simp add: mergeTexts_def separator_def)
  from inst [THEN conjunct1, rule_format, OF all] obtain pre where
    "processOCR demo_env (Some book_pdf) =
       Some (pre @ [SetText (mergeTexts [''page'', [], ''page'']), SetIsProcessing False,
                    SetStatusMessage None])"
    "fetched pre = [book_part1, book_part2, book_part3]" "committed pre = []" by blast
  with book_run_eval
  have one: "\<exists>pre. book_run = pre @ [SetText (mergeTexts [''page'', [], ''page'']),
                      SetIsProcessing False, SetStatusMessage None] \<and>
          fetched pre = [book_part1, book_part2, book_part3] \<and> committed pre = []"
    by (intro exI [of _ pre]) simp
  from book_run_eval mem
  have "processOCR demo_env (Some book_pdf) = Some book_run \<and>
        SetText (''page'' @ [CHR 0x0A, CHR 0x0A] @ ''page'') \<in> set book_run" by simp
  from inst [THEN conjunct2, THEN conjunct1, rule_format, OF this] obtain texts where
    "length texts = length [book_part1, book_part2, book_part3]"
    "''page'' @ [CHR 0x0A, CHR 0x0A] @ ''page'' = mergeTexts texts" by blast
  then have two: "\<exists>texts. length texts = 3 \<and>
               ''page'' @ [CHR 0x0A, CHR 0x0A] @ ''page'' = mergeTexts texts"
    by (intro exI [of _ texts]) simp
  from t book_split sub book_run_eval mem mt one two show ?thesis by blast
qed

section \<open>A chunk that fails\<close>

text \<open>
  C3, as the code has it. For a PDF that is split, when chunk \<open>k\<close> (from 0) is the
  first whose submission fails: the run sends the chunks up to that one and no other,
  commits no text, and ends by showing the message of the failed submission and
  clearing the status line, which was the only place that named the chunk and the
  total. The failed submission, and so the message, is the same for any request that
  gets the same response.
\<close>

theorem chunk_failure_halts:
  assumes "ftype f = ''application/pdf''"
    and "fsize f > OCR_PDF_LIMIT_BYTES \<or> pageCount > OCR_PDF_PAGE_LIMIT"
    and "splitPdfForOcr e f = Some (Inr (chunks, pageCount))"
    and "k < length chunks"
    and "\<forall>i<k. \<exists>t. submitFileToOcr e i (chunks ! i) = Inr t"
    and "submitFileToOcr e k (chunks ! k) = Inl x"
  shows "(\<exists>pre. processOCR e (Some f) =
            Some (pre @
              [SetStatusMessage (Some (''Processing PDF chunk '' @ show_nat (k + 1) @ ''/''
                                       @ show_nat (length chunks) @ ''...'')),
               Fetch (chunks ! k), SetError (Some (message x)),
               SetIsProcessing False, SetStatusMessage None]) \<and>
            fetched pre = take k chunks \<and> committed pre = [] \<and> reported pre = [None]) \<and>
         (\<forall>acts. processOCR e (Some f) = Some acts \<longrightarrow>
            committed acts = [] \<and> fetched acts = take (Suc k) chunks \<and>
            st_text (run s acts) = st_text s \<and>
            st_error (run s acts) = Some (message x) \<and>
            st_statusMessage (run s acts) = None \<and>
            st_isProcessing (run s acts) = False) \<and>
         (\<forall>e' n' c'. fetch e' n' c' = fetch e k (chunks ! k) \<and> parse e' = parse e \<and>
            stringify e' = stringify e \<longrightarrow> submitFileToOcr e' n' c' = Inl x)"
proof -
  let ?line = "SetStatusMessage (Some (''Processing PDF chunk '' @ show_nat (k + 1) @ ''/''
                                       @ show_nat (length chunks) @ ''...''))"
  from submitChunks_fails [OF assms(4,5,6), of "length chunks"] obtain sub where
    sc: "submitChunks e (length chunks) 0 chunks [] = (sub @ [?line, Fetch (chunks ! k)], Inl x)"
    and sil: "list_all silent sub" and f: "fetched sub = take k chunks" by blast
  define pre where "pre =
            [SetIsProcessing True, SetStatusMessage (Some ''Preparing file...''), SetError None,
             SetStatusMessage (Some ''Splitting PDF into OCR-safe chunks...'')]
            @ (if pageCount > OCR_PDF_PAGE_LIMIT
               then [SetStatusMessage (Some (''PDF has '' @ show_nat pageCount
                       @ '' pages. Processing '' @ show_nat (length chunks) @ '' chunks...''))]
               else [])
            @ sub"
  let ?pre = pre
  let ?tail = "[?line, Fetch (chunks ! k), SetError (Some (message x)),
               SetIsProcessing False, SetStatusMessage None]"
  from processOCR_split [OF assms(1,2,3) sc]
  have p: "processOCR e (Some f) = Some (?pre @ ?tail)" by (simp add: pre_def)
  from processOCR_split_prefix [OF sil] f
  have pre: "fetched ?pre = take k chunks" "committed ?pre = []" "reported ?pre = [None]"
    by (simp_all add: pre_def)
  have first: "\<exists>pre. processOCR e (Some f) = Some (pre @ ?tail) \<and>
            fetched pre = take k chunks \<and> committed pre = [] \<and> reported pre = [None]"
    using p pre by blast
  have second: "\<forall>acts. processOCR e (Some f) = Some acts \<longrightarrow>
            committed acts = [] \<and> fetched acts = take (Suc k) chunks \<and>
            st_text (run s acts) = st_text s \<and>
            st_error (run s acts) = Some (message x) \<and>
            st_statusMessage (run s acts) = None \<and>
            st_isProcessing (run s acts) = False"
  proof (intro allI impI)
    fix acts assume "processOCR e (Some f) = Some acts"
    with p have acts: "acts = ?pre @ ?tail" by simp
    have c: "committed acts = []"
      unfolding acts committed_append pre(2) by simp
    have r: "reported acts = [None, Some (message x)]"
      unfolding acts reported_append pre(3) by simp
    have fe: "fetched acts = take (Suc k) chunks"
      unfolding acts fetched_append pre(1) using assms(4) by (simp add: take_Suc_conv_app_nth)
    have st: "st_statusMessage (run s acts) = None" "st_isProcessing (run s acts) = False"
      unfolding acts run_append by (simp_all add: run_Cons run_Nil)
    from c r fe st show "committed acts = [] \<and> fetched acts = take (Suc k) chunks \<and>
            st_text (run s acts) = st_text s \<and>
            st_error (run s acts) = Some (message x) \<and>
            st_statusMessage (run s acts) = None \<and>
            st_isProcessing (run s acts) = False"
      by (simp add: st_text_run st_error_run)
  qed
  have third: "\<forall>e' n' c'. fetch e' n' c' = fetch e k (chunks ! k) \<and> parse e' = parse e \<and>
            stringify e' = stringify e \<longrightarrow> submitFileToOcr e' n' c' = Inl x"
    using submitFileToOcr_cong assms(6) by metis
  from first second third show ?thesis by blast
qed

theorem chunk_failure_halts_witness:
  "ftype book_pdf = ''application/pdf'' \<and> fsize book_pdf > OCR_PDF_LIMIT_BYTES \<and>
   splitPdfForOcr failing_env book_pdf = Some (Inr ([book_part1, book_part2, book_part3], 3)) \<and>
   submitFileToOcr failing_env 0 book_part1 = Inr ''page'' \<and>
   submitFileToOcr failing_env 1 book_part2 = Inl (Error ''Internal server error (HTTP 500)'') \<and>
   processOCR failing_env (Some book_pdf) = Some book_failed_run \<and>
   committed book_failed_run = [] \<and>
   fetched book_failed_run = take (Suc 1) [book_part1, book_part2, book_part3] \<and>
   st_text (run initial_ui book_failed_run) = st_text initial_ui \<and>
   st_error (run initial_ui book_failed_run) = Some ''Internal server error (HTTP 500)'' \<and>
   st_statusMessage (run initial_ui book_failed_run) = None \<and>
   fetch failing_env 1 book_part3 = fetch failing_env 1 book_part2 \<and>
   submitFileToOcr failing_env 1 book_part3 = Inl (Error ''Internal server error (HTTP 500)'')"
proof -
  have t: "ftype book_pdf = ''application/pdf''" "fsize book_pdf > OCR_PDF_LIMIT_BYTES"
    by (simp_all add: book_pdf_def OCR_PDF_LIMIT_BYTES_def)
  have k: "1 < length [book_part1, book_part2, book_part3]" by simp
  have s0: "submitFileToOcr failing_env 0 book_part1 = Inr ''page''"
    by (simp add: failing_submit)
  then have before: "\<forall>i<1. \<exists>t. submitFileToOcr failing_env i
      ([book_part1, book_part2, book_part3] ! i) = Inr t" by simp
  have s1: "submitFileToOcr failing_env 1 book_part2 = Inl (Error ''Internal server error (HTTP 500)'')"
    by (simp add: failing_submit)
  then have fails: "submitFileToOcr failing_env 1 ([book_part1, book_part2, book_part3] ! 1)
      = Inl (Error ''Internal server error (HTTP 500)'')" by simp
  note inst = chunk_failure_halts [OF t(1) disjI1 [OF t(2)] book_split_failing k before fails,
      where s = initial_ui, THEN conjunct2, THEN conjunct1, rule_format, OF book_failed_run_eval]
  have same: "fetch failing_env 1 book_part3 = fetch failing_env 1 ([book_part1, book_part2, book_part3] ! 1)
      \<and> parse failing_env = parse failing_env \<and> stringify failing_env = stringify failing_env"
    by (simp add: failing_env_def)
  note other = chunk_failure_halts [OF t(1) disjI1 [OF t(2)] book_split_failing k before fails,
      where s = initial_ui, THEN conjunct2, THEN conjunct2, rule_format, OF same]
  from inst other same t book_split_failing s0 s1 book_failed_run_eval show ?thesis by simp
qed

text \<open>
  C3 as stated fails: chunk 2 of 3 is answered with status 500, and the error shown
  is the boundary's message with the status; neither 2 nor 3 occurs in it.
\<close>

theorem chunk_failure_names_no_chunk:
  "processOCR failing_env (Some book_pdf) = Some book_failed_run \<and>
   submitFileToOcr failing_env 1 book_part2 = Inl (Error ''Internal server error (HTTP 500)'') \<and>
   st_error (run initial_ui book_failed_run) = Some ''Internal server error (HTTP 500)'' \<and>
   \<not> mentionsChunk 2 3 ''Internal server error (HTTP 500)''"
proof -
  have "st_error (run initial_ui book_failed_run) = Some ''Internal server error (HTTP 500)''"
    by (simp add: st_error_run book_failed_run_def)
  moreover have "\<not> mentionsChunk 2 3 ''Internal server error (HTTP 500)''"
    by (simp add: mentionsChunk_def show_nat.simps startsWith_def)
  moreover have "submitFileToOcr failing_env 1 book_part2 = Inl (Error ''Internal server error (HTTP 500)'')"
    by (simp add: failing_submit)
  ultimately show ?thesis using book_failed_run_eval by simp
qed

section \<open>A run that has been superseded\<close>

lemma submitWhole_shape:
  "submitWhole e line f = (acts, r) \<Longrightarrow>
     (case r of
        Inl x \<Rightarrow> list_all silent acts
      | Inr u \<Rightarrow> (\<exists>mid t. acts = mid @ [SetText t] \<and> list_all silent mid))"
  by (cases "submitFileToOcr e 0 f") (auto simp: submitWhole_def)

lemma splitAndSubmit_shape:
  assumes "splitAndSubmit e f = Some (acts, r)"
  shows "case r of
        Inl x \<Rightarrow> list_all silent acts
      | Inr u \<Rightarrow> (\<exists>mid t. acts = mid @ [SetText t] \<and> list_all silent mid)"
proof (cases "splitPdfForOcr e f")
  case None
  with assms show ?thesis by (simp add: splitAndSubmit_def)
next
  case (Some sp)
  show ?thesis
  proof (cases sp)
    case (Inl x)
    with Some assms show ?thesis by (auto simp: splitAndSubmit_def)
  next
    case (Inr cp)
    obtain chunks pageCount where cp: "cp = (chunks, pageCount)" by (cases cp)
    obtain sub r' where sc: "submitChunks e (length chunks) 0 chunks [] = (sub, r')"
      by (cases "submitChunks e (length chunks) 0 chunks []")
    from submitChunks_shape [OF sc] have sil: "list_all silent sub" by simp
    define pre where "pre = [SetStatusMessage (Some ''Splitting PDF into OCR-safe chunks...'')]
                     @ (if pageCount > OCR_PDF_PAGE_LIMIT
                        then [SetStatusMessage (Some (''PDF has '' @ show_nat pageCount
                                @ '' pages. Processing '' @ show_nat (length chunks) @ '' chunks...''))]
                        else [])
                     @ sub"
    from sil have silp: "list_all silent pre" by (simp add: pre_def)
    show ?thesis
    proof (cases r')
      case (Inl x)
      with Some Inr cp sc assms have "acts = pre" "r = Inl x"
        by (simp_all add: splitAndSubmit_def pre_def)
      with silp show ?thesis by simp
    next
      case texts: (Inr texts)
      with Some Inr cp sc assms have "acts = pre @ [SetText (mergeTexts texts)]" "r = Inr ()"
        by (simp_all add: splitAndSubmit_def pre_def)
      with silp show ?thesis by auto
    qed
  qed
qed

lemma tryBlock_shape:
  assumes "tryBlock e f = Some (acts, r)"
  shows "case r of
        Inl x \<Rightarrow> list_all silent acts
      | Inr u \<Rightarrow> (\<exists>mid t. acts = mid @ [SetText t] \<and> list_all silent mid)"
proof (cases "startsWith (ftype f) ''image/''")
  case True
  show ?thesis
  proof (cases "compressImageForOcr e f")
    case (Inl x)
    with True assms show ?thesis by (auto simp: tryBlock_def)
  next
    case (Inr prepared)
    with True assms obtain line where "submitWhole e line prepared = (acts, r)"
      by (auto simp: tryBlock_def)
    from submitWhole_shape [OF this] show ?thesis .
  qed
next
  case False
  show ?thesis
  proof (cases "ftype f = ''application/pdf''")
    case no: False
    with False assms show ?thesis by (auto simp: tryBlock_def)
  next
    case True
    from assms False True
    consider (err) x where "acts = []" "r = Inl x"
      | (whole) "submitWhole e ''Processing PDF...'' f = (acts, r)"
      | (split) "splitAndSubmit e f = Some (acts, r)"
      by (auto simp: tryBlock_def split: if_splits sum.splits)
    then show ?thesis
    proof cases
      case err
      then show ?thesis by simp
    next
      case whole
      from submitWhole_shape [OF this] show ?thesis .
    next
      case split
      from splitAndSubmit_shape [OF this] show ?thesis .
    qed
  qed
qed

text \<open>
  Every run is the three setters, then status lines, requests and pauses, then its
  one result (a text, or an error message), then the two setters of the \<open>finally\<close>.
\<close>

lemma processOCR_shape:
  assumes "processOCR e (Some f) = Some acts"
  shows "\<exists>mid fin. acts = [SetIsProcessing True, SetStatusMessage (Some ''Preparing file...''),
                             SetError None] @ mid @ [fin]
                           @ [SetIsProcessing False, SetStatusMessage None] \<and>
           list_all silent mid \<and> ((\<exists>t. fin = SetText t) \<or> (\<exists>m. fin = SetError (Some m)))"
proof -
  from assms obtain body r where tb: "tryBlock e f = Some (body, r)"
    and acts: "acts = [SetIsProcessing True, SetStatusMessage (Some ''Preparing file...''),
                      SetError None] @ body
                     @ (case r of Inl x \<Rightarrow> [SetError (Some (message x))] | Inr u \<Rightarrow> [])
                     @ [SetIsProcessing False, SetStatusMessage None]"
    by (auto simp: processOCR_def split: option.splits)
  show ?thesis
  proof (cases r)
    case (Inl x)
    with tryBlock_shape [OF tb] have "list_all silent body" by simp
    with acts Inl show ?thesis by auto
  next
    case (Inr u)
    with tryBlock_shape [OF tb] obtain mid t where "body = mid @ [SetText t]"
      "list_all silent mid" by auto
    with acts Inr show ?thesis by auto
  qed
qed

text \<open>The rest of a list from an element that occurs nowhere after itself.\<close>

lemma suffix_from_member:
  assumes "pre @ post = front @ x # back" and "x \<in> set post" and "x \<notin> set back"
  shows "\<exists>ys. post = ys @ x # back"
proof -
  from assms(1) obtain us where
    "pre = front @ us \<and> us @ post = x # back \<or> pre @ us = front \<and> post = us @ x # back"
    by (auto simp: append_eq_append_conv2)
  then show ?thesis
  proof
    assume a: "pre = front @ us \<and> us @ post = x # back"
    show ?thesis
    proof (cases us)
      case Nil
      with a have "post = [] @ x # back" by simp
      then show ?thesis by blast
    next
      case (Cons u us')
      with a have "back = us' @ post" by simp
      with assms(2,3) show ?thesis by simp
    qed
  next
    assume "pre @ us = front \<and> post = us @ x # back"
    then show ?thesis by blast
  qed
qed

lemma silent_no_SetText: "list_all silent acts \<Longrightarrow> SetText t \<notin> set acts"
  by (induction acts) auto

lemma silent_no_SetError: "list_all silent acts \<Longrightarrow> SetError m \<notin> set acts"
  by (induction acts) auto

lemma run_finally:
  "run s (ys @ [fin, SetIsProcessing False, SetStatusMessage None]) =
     (perform (run s ys) fin)\<lparr>st_isProcessing := False, st_statusMessage := None\<rparr>"
  by (simp add: run_append run_Cons run_Nil)

text \<open>
  C4, as the code has it. Dropping a file makes it the active file and clears the
  text and the error. No run carries a generation id and nothing compares the file of
  a run with the active file: whatever the state of the page is when the rest of a
  run is performed (whatever file is active, whatever another run has shown), a text
  that the rest of the run sets is the text shown afterwards, an error message it
  sets is the error shown afterwards, in both cases the busy flag and the status line
  are cleared, the status line is cleared by any rest that is not empty, and the
  active file stays as it was.
\<close>

theorem stale_run_commits:
  assumes "processOCR e (Some f) = Some (pre @ post)"
  shows "(SetText t \<in> set post \<longrightarrow>
            st_text (run s post) = t \<and>
            st_isProcessing (run s post) = False \<and> st_statusMessage (run s post) = None) \<and>
         (SetError (Some m) \<in> set post \<longrightarrow>
            st_error (run s post) = Some m \<and>
            st_isProcessing (run s post) = False \<and> st_statusMessage (run s post) = None) \<and>
         (post \<noteq> [] \<longrightarrow> st_statusMessage (run s post) = None) \<and>
         st_file (run s post) = st_file s \<and>
         st_file (run s (onDrop g)) = Some g \<and>
         st_text (run s (onDrop g)) = [] \<and>
         st_error (run s (onDrop g)) = None"
proof -
  let ?start = "[SetIsProcessing True, SetStatusMessage (Some ''Preparing file...''),
                 SetError None]"
  from processOCR_shape [OF assms] obtain mid fin where
    acts: "pre @ post = ?start @ mid @ [fin] @ [SetIsProcessing False, SetStatusMessage None]"
    and sil: "list_all silent mid"
    and fin: "(\<exists>t. fin = SetText t) \<or> (\<exists>m. fin = SetError (Some m))" by blast
  from acts have acts': "pre @ post = (?start @ mid) @ fin # [SetIsProcessing False, SetStatusMessage None]"
    by simp
  from fin have notback: "fin \<notin> set [SetIsProcessing False, SetStatusMessage None]" by auto
  have shown: "SetText t \<in> set post \<longrightarrow>
            st_text (run s post) = t \<and>
            st_isProcessing (run s post) = False \<and> st_statusMessage (run s post) = None"
  proof
    assume mem: "SetText t \<in> set post"
    then have "SetText t \<in> set (pre @ post)" by simp
    with silent_no_SetText [OF sil, of t] have t: "fin = SetText t"
      unfolding acts by auto
    from suffix_from_member [OF acts' _ notback] mem t obtain ys where
      "post = ys @ [fin, SetIsProcessing False, SetStatusMessage None]" by auto
    with t show "st_text (run s post) = t \<and>
            st_isProcessing (run s post) = False \<and> st_statusMessage (run s post) = None"
      by (simp add: run_finally)
  qed
  have failed: "SetError (Some m) \<in> set post \<longrightarrow>
            st_error (run s post) = Some m \<and>
            st_isProcessing (run s post) = False \<and> st_statusMessage (run s post) = None"
  proof
    assume mem: "SetError (Some m) \<in> set post"
    then have "SetError (Some m) \<in> set (pre @ post)" by simp
    with silent_no_SetError [OF sil, of "Some m"] have t: "fin = SetError (Some m)"
      unfolding acts by auto
    from suffix_from_member [OF acts' _ notback] mem t obtain ys where
      "post = ys @ [fin, SetIsProcessing False, SetStatusMessage None]" by auto
    with t show "st_error (run s post) = Some m \<and>
            st_isProcessing (run s post) = False \<and> st_statusMessage (run s post) = None"
      by (simp add: run_finally)
  qed
  have cleared: "post \<noteq> [] \<longrightarrow> st_statusMessage (run s post) = None"
  proof
    assume ne: "post \<noteq> []"
    then have "last post = last (pre @ post)" by simp
    also have "\<dots> = last (?start @ mid @ [fin] @ [SetIsProcessing False, SetStatusMessage None])"
      by (simp only: acts)
    also have "\<dots> = SetStatusMessage None" by simp
    finally have l: "last post = SetStatusMessage None" .
    define rest where "rest = butlast post"
    from append_butlast_last_id [OF ne] l have p: "post = rest @ [SetStatusMessage None]"
      by (simp add: rest_def)
    show "st_statusMessage (run s post) = None"
      by (simp add: p run_append run_Cons run_Nil)
  qed
  have "\<forall>g. SetFile g \<notin> set (pre @ post)"
    unfolding acts using silent_no_SetFile [OF sil] fin by auto
  then have "\<forall>g. SetFile g \<notin> set post" by simp
  from st_file_run [OF this] have kept: "st_file (run s post) = st_file s" .
  have drop: "st_file (run s (onDrop g)) = Some g" "st_text (run s (onDrop g)) = []"
    "st_error (run s (onDrop g)) = None"
    by (simp_all add: onDrop_def run_Cons run_Nil)
  from shown failed cleared kept drop show ?thesis by blast
qed

lemma photo_run_eval: "processOCR demo_env (Some small_image) = Some photo_run"
  by (simp add: processOCR_def tryBlock_def submitWhole_def compressImageForOcr_def demo_submit
      small_image_def photo_run_def startsWith_def OCR_IMAGE_LIMIT_BYTES_def)

lemma receipt_run_eval: "processOCR demo_env (Some receipt_image) = Some receipt_run"
  by (simp add: processOCR_def tryBlock_def submitWhole_def compressImageForOcr_def demo_submit
      receipt_image_def receipt_run_def startsWith_def OCR_IMAGE_LIMIT_BYTES_def)

theorem stale_run_commits_witness:
  "processOCR demo_env (Some small_image) = Some (untilFetch photo_run @ afterFetch photo_run) \<and>
   SetText ''page'' \<in> set (afterFetch photo_run) \<and> afterFetch photo_run \<noteq> [] \<and>
   st_file (run initial_ui (onDrop receipt_image)) = Some receipt_image \<and>
   st_text (run initial_ui (onDrop receipt_image)) = [] \<and>
   st_error (run initial_ui (onDrop receipt_image)) = None \<and>
   st_text (run (run initial_ui (onDrop receipt_image)) (afterFetch photo_run)) = ''page'' \<and>
   st_isProcessing (run (run initial_ui (onDrop receipt_image)) (afterFetch photo_run)) = False \<and>
   st_statusMessage (run (run initial_ui (onDrop receipt_image)) (afterFetch photo_run)) = None \<and>
   st_file (run (run initial_ui (onDrop receipt_image)) (afterFetch photo_run)) = Some receipt_image \<and>
   processOCR failing_env (Some book_pdf) =
     Some (untilFetch book_failed_run @ afterFetch book_failed_run) \<and>
   SetError (Some ''Internal server error (HTTP 500)'') \<in> set (afterFetch book_failed_run) \<and>
   st_error (run (run initial_ui (onDrop receipt_image)) (afterFetch book_failed_run))
     = Some ''Internal server error (HTTP 500)'' \<and>
   st_isProcessing (run (run initial_ui (onDrop receipt_image)) (afterFetch book_failed_run))
     = False"
proof -
  have split: "processOCR demo_env (Some small_image) =
                 Some (untilFetch photo_run @ afterFetch photo_run)"
    using photo_run_eval by (simp add: photo_run_def)
  have mem: "SetText ''page'' \<in> set (afterFetch photo_run)"
    by (simp add: photo_run_def)
  have ne: "afterFetch photo_run \<noteq> []" by (simp add: photo_run_def)
  have split': "processOCR failing_env (Some book_pdf) =
                 Some (untilFetch book_failed_run @ afterFetch book_failed_run)"
    using book_failed_run_eval by (simp add: book_failed_run_def)
  have mem': "SetError (Some ''Internal server error (HTTP 500)'') \<in> set (afterFetch book_failed_run)"
    by (simp add: book_failed_run_def)
  note first = stale_run_commits [OF split, where t = "''page''"
      and s = "run initial_ui (onDrop receipt_image)" and g = receipt_image]
  note drop = stale_run_commits [OF split, where s = initial_ui and g = receipt_image]
  note second = stale_run_commits [OF split', where m = "''Internal server error (HTTP 500)''"
      and s = "run initial_ui (onDrop receipt_image)"]
  from first mem ne
  have a: "st_text (run (run initial_ui (onDrop receipt_image)) (afterFetch photo_run)) = ''page''"
    "st_isProcessing (run (run initial_ui (onDrop receipt_image)) (afterFetch photo_run)) = False"
    "st_statusMessage (run (run initial_ui (onDrop receipt_image)) (afterFetch photo_run)) = None"
    "st_file (run (run initial_ui (onDrop receipt_image)) (afterFetch photo_run))
       = st_file (run initial_ui (onDrop receipt_image))"
    by blast+
  from drop
  have b: "st_file (run initial_ui (onDrop receipt_image)) = Some receipt_image"
    "st_text (run initial_ui (onDrop receipt_image)) = []"
    "st_error (run initial_ui (onDrop receipt_image)) = None" by blast+
  from second mem'
  have c: "st_error (run (run initial_ui (onDrop receipt_image)) (afterFetch book_failed_run))
     = Some ''Internal server error (HTTP 500)''"
    "st_isProcessing (run (run initial_ui (onDrop receipt_image)) (afterFetch book_failed_run))
     = False" by blast+
  from split mem ne a b split' mem' c show ?thesis by simp
qed

text \<open>
  C4 as stated fails. A photo is dropped and its run sends its request; Clear is
  clicked and a receipt is dropped, and its run completes with the text \<open>other\<close>;
  then the request of the first run settles: the page shows the receipt as its file
  and the text of the photo.
\<close>

theorem stale_run_overwrites:
  "processOCR demo_env (Some small_image) = Some photo_run \<and>
   processOCR demo_env (Some receipt_image) = Some receipt_run \<and>
   processOCR demo_env None = Some [] \<and>
   committed receipt_run = [''other''] \<and>
   st_file (run initial_ui (supersede photo_run small_image receipt_run receipt_image))
     = Some receipt_image \<and>
   st_text (run initial_ui (supersede photo_run small_image receipt_run receipt_image))
     = ''page''"
proof -
  have "committed receipt_run = [''other'']" by (simp add: receipt_run_def)
  moreover
  have "st_text (run initial_ui (supersede photo_run small_image receipt_run receipt_image))
     = ''page''"
    by (simp add: st_text_run supersede_def onDrop_def clearAll_def photo_run_def
        receipt_run_def committed_append)
  moreover
  have "st_file (run initial_ui (supersede photo_run small_image receipt_run receipt_image))
     = Some receipt_image"
    by (simp add: supersede_def onDrop_def clearAll_def photo_run_def receipt_run_def
        run_Cons run_Nil)
  moreover have "processOCR demo_env None = Some []" by (simp add: processOCR_def)
  ultimately show ?thesis using photo_run_eval receipt_run_eval by simp
qed

section \<open>A response without a text\<close>

text \<open>An empty fragment is left out of the merged text.\<close>

lemma mergeTexts_drops_empty: "mergeTexts (xs @ [] # ys) = mergeTexts (xs @ ys)"
  by (simp add: mergeTexts_def)

text \<open>A body that cannot be read as JSON gives the empty string as well.\<close>

lemma submitFileToOcr_unreadable_body:
  assumes "fetch e n f = Inr resp" and "ok resp"
    and "contentType resp = Some h" and "includesStr h ''application/json''"
    and "parse e (bodyText resp) = None"
  shows "submitFileToOcr e n f = Inr []"
  using assms by (simp add: submitFileToOcr_def orElse_def toStr_def)




end
